theory Spec2Isabelle
  imports Complex_Main
begin

section \<open>The voice changer engine of voz.py\<close>

text \<open>
  The theory embeds the class \<open>VoiceChangerEngine\<close> of \<open>src/voz.py\<close>: the capture
  control (\<open>start_input\<close>, \<open>stop_input\<close>), the segmentation loop (\<open>asr_worker\<close> with
  \<open>_finalize_by_silence\<close>, \<open>_reset_partials\<close>, \<open>_emit_phrase\<close>), the synthesis loop
  (\<open>tts_worker\<close> with \<open>_tts_with_retries\<close>) and the life cycle (\<open>start\<close>, \<open>stop\<close>).

  The engine object is a record that every method takes and returns. What the methods
  read from outside the object (the clock, the recognizer, the synthesizer, the audio
  device) is an explicit argument of the method, one value per call the source makes,
  so that a theorem over all arguments covers every behaviour of the collaborators.
  What the methods do to the outside (callbacks, recognizer calls, synthesis calls,
  sleeps) is appended to the field \<open>trace\<close>; the streams of the device layer are the
  fields \<open>opened\<close> and \<open>running\<close>.

  Readings of \<open>time.time()\<close> and the durations configured in seconds are real numbers.
  A Python \<open>str\<close> is a \<open>string\<close>, one \<open>char\<close> for each code point, so that \<open>length\<close>
  is Python's \<open>len\<close>.
\<close>

subsection \<open>Data\<close>

text \<open>Exceptions: the two the source raises itself, and those of the libraries it calls.\<close>

datatype runtime_msg = ModeloVoskNoCargado | TtsAgotoReintentos

datatype exn =
  RuntimeError runtime_msg
  | ValueError
  | OverflowError
  | LibraryError string

text \<open>The messages of \<open>ui_log\<close> and \<open>on_status\<close>, one constructor for each literal of the source.\<close>

datatype log_msg =
  CapturaIniciada
  | CapturaDetenida
  | HiloAsrIniciado
  | HiloAsrDetenido
  | HiloTtsIniciado
  | HiloTtsDetenido
  | TtsReintento int exn
  | FfmpegNoEnPath
  | TtsError exn
  | NoSePudoReanudar exn

datatype status_msg =
  Grabando
  | MicrofonoDetenido
  | Reproduciendo
  | ListoEscuchando

datatype worker = AsrWorker | TtsWorker

text \<open>
  Where a worker thread stands: created and started, inside its \<open>while\<close> loop, or
  returned from its target function.
\<close>

datatype tstate = Spawned | Looping | Finished

datatype event =
  UiLog log_msg
  | OnStatus status_msg
  | OnPartial string
  | OnFinal string
  | AcceptWaveform
  | RecResult
  | RecPartialResult
  | RecFinalResult
  | Synthesize string
  | Sleep real
  | DecodeMp3
  | ExportWav
  | Play
  | RemoveMp3

datatype vosk_model = Model string

datatype kaldi_recognizer = KaldiRecognizer vosk_model nat

type_synonym frame = "real list"

record engine =
  model :: "vosk_model option"
  recognizer :: "kaldi_recognizer option"
  ducking :: bool
  keep_mp3 :: bool
  save_wav :: bool
  ffmpeg_available :: bool
  audio_q :: "frame list"
  phrase_q :: "string list"
  stop_event :: bool
  stream_in :: "nat option"
  t_asr :: "nat option"
  t_tts :: "nat option"
  last_partial :: string
  last_partial_time :: real
  last_activity_time :: real
  speech_seen_this_segment :: bool
  min_phrase_len :: int
  print_partials :: bool
  silence_finalize_sec :: real
  partial_throttle_sec :: real
  tts_max_retries :: int
  tts_backoff :: real
  trace :: "event list"
  opened :: "nat set"
  running :: "nat set"
  next_stream :: nat
  threads :: "(worker \<times> tstate) list"

text \<open>
  The fields up to \<open>tts_backoff\<close> are attributes of the object (\<open>stream_in\<close>, \<open>t_asr\<close>
  and \<open>t_tts\<close> hold handles: a stream number, a position in \<open>threads\<close>). The others
  are the world around it: the calls made so far, the input streams that exist and
  those that deliver frames, the next fresh stream number, and the threads that were
  started with their progress.

  \<open>__init__\<close>, at the clock reading \<open>now\<close>, with \<open>ffmpeg\<close> telling whether FFmpeg is found
  on the path, in a world without streams and threads. The attributes that no modelled
  method reads (sample rate, devices, voice, gain, cache directory, noise gate) are left
  out.
\<close>

definition init :: "real \<Rightarrow> bool \<Rightarrow> engine" where
  "init now ffmpeg =
     \<lparr> model = None, recognizer = None, ducking = True, keep_mp3 = False, save_wav = True,
       ffmpeg_available = ffmpeg, audio_q = [], phrase_q = [], stop_event = False,
       stream_in = None, t_asr = None, t_tts = None,
       last_partial = [], last_partial_time = 0, last_activity_time = now,
       speech_seen_this_segment = False,
       min_phrase_len = 6, print_partials = True, silence_finalize_sec = 0.8,
       partial_throttle_sec = 0.25, tts_max_retries = 3, tts_backoff = 1,
       trace = [], opened = {}, running = {}, next_stream = 0, threads = [] \<rparr>"

subsection \<open>Callbacks and library calls\<close>

definition call :: "event \<Rightarrow> engine \<Rightarrow> engine" where
  "call e s = s\<lparr>trace := trace s @ [e]\<rparr>"

definition ui_log :: "log_msg \<Rightarrow> engine \<Rightarrow> engine" where
  "ui_log m = call (UiLog m)"

definition on_status :: "status_msg \<Rightarrow> engine \<Rightarrow> engine" where
  "on_status m = call (OnStatus m)"

definition on_partial :: "string \<Rightarrow> engine \<Rightarrow> engine" where
  "on_partial t = call (OnPartial t)"

definition on_final :: "string \<Rightarrow> engine \<Rightarrow> engine" where
  "on_final t = call (OnFinal t)"

text \<open>
  \<open>str.strip()\<close>: the white space of Python among the code points below 256.
\<close>

definition isspace :: "char \<Rightarrow> bool" where
  "isspace c = (of_char c \<in> {9, 10, 11, 12, 13, 28, 29, 30, 31, 32, 133, 160 :: nat})"

definition strip :: "string \<Rightarrow> string" where
  "strip t = rev (dropWhile isspace (rev (dropWhile isspace t)))"

text \<open>\<open>d.get(key, "")\<close> and \<open>d.get(key) or ""\<close> on the parsed answer of the recognizer.\<close>

definition get_or_empty :: "string option \<Rightarrow> string" where
  "get_or_empty v = (case v of None \<Rightarrow> [] | Some t \<Rightarrow> t)"

subsection \<open>Segmentation: phrases, partials, silence\<close>

definition emit_phrase :: "engine \<Rightarrow> string \<Rightarrow> engine" where
  "emit_phrase s text =
     (if int (length text) < min_phrase_len s then s
      else let s1 = on_final text s
           in s1\<lparr>phrase_q := phrase_q s1 @ [text]\<rparr>)"

definition reset_partials :: "engine \<Rightarrow> real \<Rightarrow> engine" where
  "reset_partials s now =
     s\<lparr>last_partial := [], speech_seen_this_segment := False, last_activity_time := now\<rparr>"

text \<open>
  \<open>_finalize_by_silence\<close>. \<open>t_check\<close> is the clock at the test, \<open>final\<close> the field
  \<open>text\<close> of the recognizer's \<open>FinalResult()\<close> and \<open>t_reset\<close> the clock inside
  \<open>_reset_partials\<close>; the last two are read only when the test succeeds.
\<close>

definition finalize_by_silence :: "engine \<Rightarrow> real \<Rightarrow> string option \<Rightarrow> real \<Rightarrow> engine" where
  "finalize_by_silence s t_check final t_reset =
     (if \<not> speech_seen_this_segment s then s
      else if t_check - last_activity_time s \<ge> silence_finalize_sec s then
        let s1 = call RecFinalResult s;
            fin = strip (get_or_empty final);
            s2 = (if fin \<noteq> [] then emit_phrase s1 fin else s1)
        in reset_partials s2 t_reset
      else s)"

text \<open>
  What one turn of the segmentation loop reads from outside: the answer of
  \<open>AcceptWaveform\<close>, the fields \<open>text\<close> of \<open>Result()\<close> and \<open>partial\<close> of
  \<open>PartialResult()\<close> (\<open>None\<close> when the key is absent), the clock of the loop body, and
  the three readings of \<open>_finalize_by_silence\<close>. The turn that leaves the loop reads
  \<open>final_text\<close> only.
\<close>

record asr_env =
  accept :: bool
  result_text :: "string option"
  partial_text :: "string option"
  now :: real
  t_check :: real
  final_text :: "string option"
  t_reset :: real

text \<open>The branch of the loop body taken when \<open>AcceptWaveform\<close> answers true.\<close>

definition handle_result :: "asr_env \<Rightarrow> engine \<Rightarrow> engine" where
  "handle_result env s =
     (let s1 = call RecResult s;
          text = strip (get_or_empty (result_text env));
          s2 = (if text \<noteq> [] then emit_phrase s1 text else s1)
      in reset_partials s2 (t_reset env))"

text \<open>The \<open>else\<close> branch: the partial result, throttled, or the silence test.\<close>

definition handle_partial :: "asr_env \<Rightarrow> engine \<Rightarrow> engine" where
  "handle_partial env s =
     (let s1 = call RecPartialResult s;
          partial = get_or_empty (partial_text env)
      in if partial \<noteq> [] then
           let s2 = s1\<lparr>speech_seen_this_segment := True, last_activity_time := now env\<rparr>
           in if print_partials s2 \<and> partial \<noteq> last_partial s2
                 \<and> now env - last_partial_time s2 \<ge> partial_throttle_sec s2
              then (on_partial partial s2)\<lparr>last_partial := partial, last_partial_time := now env\<rparr>
              else s2
         else finalize_by_silence s1 (t_check env) (final_text env) (t_reset env))"

text \<open>
  One turn of the \<open>while\<close> loop of \<open>asr_worker\<close>: \<open>audio_q.get(timeout=0.2)\<close> takes the
  oldest frame, or times out on an empty queue.
\<close>

definition asr_body :: "asr_env \<Rightarrow> engine \<Rightarrow> engine" where
  "asr_body env s =
     (case audio_q s of
        [] \<Rightarrow> finalize_by_silence s (t_check env) (final_text env) (t_reset env)
      | f # q \<Rightarrow>
          let s1 = call AcceptWaveform (s\<lparr>audio_q := q\<rparr>)
          in if accept env then handle_result env s1 else handle_partial env s1)"

text \<open>What \<open>asr_worker\<close> does after its loop.\<close>

definition asr_exit :: "asr_env \<Rightarrow> engine \<Rightarrow> engine" where
  "asr_exit env s =
     (let s1 = call RecFinalResult s;
          fin = strip (get_or_empty (final_text env));
          s2 = (if fin \<noteq> [] then emit_phrase s1 fin else s1)
      in ui_log HiloAsrDetenido s2)"

text \<open>
  \<open>asr_worker\<close>, one scheduling step of the thread: the first log line, then one test
  of the stop signal with either one turn of the loop or the exit.
\<close>

definition asr_worker :: "asr_env \<Rightarrow> tstate \<Rightarrow> engine \<Rightarrow> tstate \<times> engine" where
  "asr_worker env pc s =
     (case pc of
        Spawned \<Rightarrow> (Looping, ui_log HiloAsrIniciado s)
      | Looping \<Rightarrow>
          if stop_event s then (Finished, asr_exit env s) else (Looping, asr_body env s)
      | Finished \<Rightarrow> (Finished, s))"

subsection \<open>Capture\<close>

text \<open>
  What the device layer does when a stream is opened and started, and when it is stopped
  and closed: each call may raise.
\<close>

datatype open_outcome = OpenRaises exn | StartRaises exn | StreamStarted

datatype close_outcome = StopRaises exn | CloseRaises exn | StreamClosed

text \<open>
  \<open>start_input\<close> returns the exception that leaves it, if any, and the engine as it is
  then. The defaults it stores in the \<open>sounddevice\<close> module are not modelled.
\<close>

definition start_input :: "engine \<Rightarrow> open_outcome \<Rightarrow> exn option \<times> engine" where
  "start_input s dev =
     (let h = next_stream s;
          s1 = s\<lparr>stream_in := Some h, opened := insert h (opened s), next_stream := Suc h\<rparr>
      in case dev of
           OpenRaises e \<Rightarrow> (Some e, s)
         | StartRaises e \<Rightarrow> (Some e, s1)
         | StreamStarted \<Rightarrow>
             (None, ui_log CapturaIniciada
                      (on_status Grabando (s1\<lparr>running := insert h (running s1)\<rparr>))))"

text \<open>The \<open>try\<close> block of \<open>stop_input\<close>: \<open>stop()\<close> then \<open>close()\<close> on the stream.\<close>

definition stream_stop_close :: "nat \<Rightarrow> close_outcome \<Rightarrow> engine \<Rightarrow> exn option \<times> engine" where
  "stream_stop_close h dev s =
     (case dev of
        StopRaises e \<Rightarrow> (Some e, s)
      | CloseRaises e \<Rightarrow> (Some e, s\<lparr>running := running s - {h}\<rparr>)
      | StreamClosed \<Rightarrow> (None, s\<lparr>running := running s - {h}, opened := opened s - {h}\<rparr>))"

definition stop_input :: "engine \<Rightarrow> close_outcome \<Rightarrow> engine" where
  "stop_input s dev =
     (case stream_in s of
        None \<Rightarrow> s
      | Some h \<Rightarrow>
          let s1 = snd (stream_stop_close h dev s);
              s2 = s1\<lparr>stream_in := None\<rparr>
          in on_status MicrofonoDetenido (ui_log CapturaDetenida s2))"

subsection \<open>Synthesis and playback\<close>

text \<open>
  \<open>time.sleep(d)\<close>, as far as it can raise. CPython first converts the delay to a signed
  64-bit count of nanoseconds and raises \<open>OverflowError\<close> when it does not fit (a delay
  above about \<open>9.2e9\<close> seconds); a negative delay that fits raises \<open>ValueError\<close>. A delay
  that is not a number raises \<open>ValueError\<close> as well; the reals have no such value, and
  the rounding of the floating point product is not modelled.
\<close>

definition time_sleep :: "real \<Rightarrow> exn option" where
  "time_sleep d =
     (if d * 10 ^ 9 < - (2 ^ 63) \<or> 2 ^ 63 \<le> d * 10 ^ 9 then Some OverflowError
      else if d < 0 then Some ValueError
      else None)"

text \<open>
  The \<open>for\<close> loop of \<open>_tts_with_retries\<close> from attempt \<open>n\<close> on, with \<open>m\<close> the value of
  \<open>tts_max_retries\<close> when the loop began. \<open>synth n\<close> is the exception of the \<open>n\<close>-th
  synthesis, \<open>None\<close> when it succeeds. \<open>time.sleep\<close> is called inside the handler, so
  that an exception it raises leaves the method.
\<close>

function tts_attempts :: "(int \<Rightarrow> exn option) \<Rightarrow> string \<Rightarrow> int \<Rightarrow> int \<Rightarrow> engine \<Rightarrow> exn option \<times> engine" where
  "tts_attempts synth text m n s =
     (if n > m then (Some (RuntimeError TtsAgotoReintentos), s)
      else
        let s1 = call (Synthesize text) s
        in (case synth n of
              None \<Rightarrow> (None, s1)
            | Some e \<Rightarrow>
                (let s2 = ui_log (TtsReintento n e) s1
                 in (case time_sleep (tts_backoff s2 * real_of_int n) of
                       Some x \<Rightarrow> (Some x, s2)
                     | None \<Rightarrow>
                         tts_attempts synth text m (n + 1)
                           (call (Sleep (tts_backoff s2 * real_of_int n)) s2)))))"
  by pat_completeness auto
termination
  by (relation "measure (\<lambda>(synth, text, m, n, s). nat (m + 1 - n))") auto

declare tts_attempts.simps [simp del]

definition tts_with_retries :: "(int \<Rightarrow> exn option) \<Rightarrow> string \<Rightarrow> engine \<Rightarrow> exn option \<times> engine" where
  "tts_with_retries synth text s = tts_attempts synth text (tts_max_retries s) 1 s"

text \<open>
  What the handling of one phrase reads from outside: the device when capture is
  suspended, the synthesizer, the decoding of the MP3 file, the export of the WAV file,
  the playback, whether another thread raises the stop signal meanwhile, and the device
  when capture is resumed.
\<close>

record phrase_env =
  dev_close :: close_outcome
  synth :: "int \<Rightarrow> exn option"
  decode :: "exn option"
  export :: "exn option"
  play :: "exn option"
  stop_during :: bool
  dev_open :: open_outcome

text \<open>How the \<open>try\<close> block of \<open>tts_worker\<close> is left.\<close>

datatype body_exit = Completed | Continue | Raised exn

definition tts_try :: "phrase_env \<Rightarrow> string \<Rightarrow> engine \<Rightarrow> body_exit \<times> engine" where
  "tts_try env text s =
     (if \<not> ffmpeg_available s then (Continue, ui_log FfmpegNoEnPath s)
      else
        (case tts_with_retries (synth env) text s of
           (Some e, s1) \<Rightarrow> (Raised e, s1)
         | (None, s1) \<Rightarrow>
             (let s2 = call DecodeMp3 s1
              in (case decode env of
                    Some e \<Rightarrow> (Raised e, s2)
                  | None \<Rightarrow>
                      (let s3 = (if save_wav s2 then call ExportWav s2 else s2)
                       in (case (if save_wav s2 then export env else None) of
                             Some e \<Rightarrow> (Raised e, s3)
                           | None \<Rightarrow>
                               (let s4 = call Play (on_status Reproduciendo s3)
                                in (case play env of
                                      Some e \<Rightarrow> (Raised e, s4)
                                    | None \<Rightarrow>
                                        (let s5 = on_status ListoEscuchando s4
                                         in (Completed,
                                             if keep_mp3 s5 then s5
                                             else call RemoveMp3 s5))))))))))"

text \<open>The \<open>finally\<close> block.\<close>

definition tts_finally :: "phrase_env \<Rightarrow> engine \<Rightarrow> engine" where
  "tts_finally env s =
     (if ducking s \<and> \<not> stop_event s then
        case start_input s (dev_open env) of
          (None, s1) \<Rightarrow> s1
        | (Some e, s1) \<Rightarrow> ui_log (NoSePudoReanudar e) s1
      else s)"

text \<open>
  The handling of one non-empty phrase: ducking, the \<open>try\<close> block with its handler, the
  \<open>finally\<close> block. A stop signal raised by another thread meanwhile is seen by the test
  of the \<open>finally\<close> block.
\<close>

definition handle_phrase :: "phrase_env \<Rightarrow> string \<Rightarrow> engine \<Rightarrow> engine" where
  "handle_phrase env text s =
     (let s0 = (if ducking s then stop_input s (dev_close env) else s);
          (r, s1) = tts_try env text s0;
          s2 = (case r of Raised e \<Rightarrow> ui_log (TtsError e) s1 | _ \<Rightarrow> s1);
          s3 = s2\<lparr>stop_event := stop_event s2 \<or> stop_during env\<rparr>
      in tts_finally env s3)"

text \<open>One turn of the \<open>while\<close> loop of \<open>tts_worker\<close>.\<close>

definition tts_body :: "phrase_env \<Rightarrow> engine \<Rightarrow> engine" where
  "tts_body env s =
     (case phrase_q s of
        [] \<Rightarrow> s
      | text # q \<Rightarrow>
          let s1 = s\<lparr>phrase_q := q\<rparr>
          in if text = [] then s1 else handle_phrase env text s1)"

definition tts_worker :: "phrase_env \<Rightarrow> tstate \<Rightarrow> engine \<Rightarrow> tstate \<times> engine" where
  "tts_worker env pc s =
     (case pc of
        Spawned \<Rightarrow> (Looping, ui_log HiloTtsIniciado s)
      | Looping \<Rightarrow>
          if stop_event s then (Finished, ui_log HiloTtsDetenido s) else (Looping, tts_body env s)
      | Finished \<Rightarrow> (Finished, s))"

subsection \<open>Life cycle\<close>

definition start :: "engine \<Rightarrow> open_outcome \<Rightarrow> exn option \<times> engine" where
  "start s dev =
     (if model s = None \<or> recognizer s = None then (Some (RuntimeError ModeloVoskNoCargado), s)
      else
        case start_input (s\<lparr>stop_event := False\<rparr>) dev of
          (Some e, s1) \<Rightarrow> (Some e, s1)
        | (None, s1) \<Rightarrow>
            let n = length (threads s1)
            in (None, s1\<lparr>t_asr := Some n, t_tts := Some (Suc n),
                         threads := threads s1 @ [(AsrWorker, Spawned), (TtsWorker, Spawned)]\<rparr>))"

text \<open>
  The two draining loops of \<open>stop\<close>: \<open>get_nowait\<close> while the queue is not empty.
\<close>

fun drain :: "'a list \<Rightarrow> 'a list" where
  "drain [] = []"
| "drain (x # q) = drain q"

text \<open>
  \<open>stop\<close>. No exception leaves \<open>stop_input\<close> (those of the device are caught inside
  it), so the handler around the call has nothing to catch.
\<close>

definition stop :: "engine \<Rightarrow> close_outcome \<Rightarrow> engine" where
  "stop s dev =
     (let s1 = s\<lparr>stop_event := True\<rparr>;
          s2 = stop_input s1 dev;
          s3 = s2\<lparr>audio_q := drain (audio_q s2)\<rparr>
      in s3\<lparr>phrase_q := drain (phrase_q s3)\<rparr>)"

subsection \<open>The threads together\<close>

text \<open>
  What can happen next in the process: the capture callback puts a frame that passed the
  noise gate into the frame queue (only a running stream delivers; the queue holds 80
  frames and the put waits while it is full), a worker thread takes a step, or the
  caller calls \<open>start\<close> or \<open>stop\<close>. Each method call and each turn of a worker loop is
  one step; the steps of the threads interleave in any order.
\<close>

datatype action =
  FramePut frame
  | AsrStep nat asr_env
  | TtsStep nat phrase_env
  | CallStart open_outcome
  | CallStop close_outcome

definition audio_put :: "frame \<Rightarrow> engine \<Rightarrow> engine" where
  "audio_put f s =
     (if running s \<noteq> {} \<and> length (audio_q s) < 80 then s\<lparr>audio_q := audio_q s @ [f]\<rparr> else s)"

definition thread_step :: "nat \<Rightarrow> worker \<Rightarrow> (tstate \<Rightarrow> engine \<Rightarrow> tstate \<times> engine) \<Rightarrow> engine \<Rightarrow> engine" where
  "thread_step i w body s =
     (if i < length (threads s) \<and> fst (threads s ! i) = w then
        let (pc, s1) = body (snd (threads s ! i)) s
        in s1\<lparr>threads := (threads s1)[i := (w, pc)]\<rparr>
      else s)"

fun step :: "engine \<Rightarrow> action \<Rightarrow> engine" where
  "step s (FramePut f) = audio_put f s"
| "step s (AsrStep i env) = thread_step i AsrWorker (asr_worker env) s"
| "step s (TtsStep i env) = thread_step i TtsWorker (tts_worker env) s"
| "step s (CallStart dev) = snd (start s dev)"
| "step s (CallStop dev) = stop s dev"

definition run :: "engine \<Rightarrow> action list \<Rightarrow> engine" where
  "run s acts = foldl step s acts"

subsection \<open>Predicates used in the proofs\<close>

text \<open>
  The phrases of the queue, and the finalized phrases reported since the trace was
  \<open>tr0\<close>, have at least \<open>m\<close> code points, and \<open>m\<close> is the configured minimum.
\<close>

definition phrase_inv :: "int \<Rightarrow> event list \<Rightarrow> engine \<Rightarrow> bool" where
  "phrase_inv m tr0 s =
     (min_phrase_len s = m
      \<and> (\<forall>t \<in> set (phrase_q s). m \<le> int (length t))
      \<and> (\<forall>t. OnFinal t \<in> set (trace s) \<longrightarrow> OnFinal t \<in> set tr0 \<or> m \<le> int (length t)))"

text \<open>
  What one failed synthesis attempt leaves in the trace: the call, the retry notice and
  the sleep of \<open>b * n\<close> seconds.
\<close>

definition failed_attempt :: "real \<Rightarrow> (int \<Rightarrow> exn option) \<Rightarrow> string \<Rightarrow> int \<Rightarrow> event list" where
  "failed_attempt b sy tx n =
     (case sy n of
        None \<Rightarrow> []
      | Some e \<Rightarrow> [Synthesize tx, UiLog (TtsReintento n e), Sleep (b * real_of_int n)])"

text \<open>Counting the events of one kind in a trace.\<close>

fun is_synthesize :: "event \<Rightarrow> bool" where
  "is_synthesize (Synthesize t) = True"
| "is_synthesize e = False"

fun is_tts_error :: "event \<Rightarrow> bool" where
  "is_tts_error (UiLog (TtsError e)) = True"
| "is_tts_error e = False"

definition count_events :: "(event \<Rightarrow> bool) \<Rightarrow> event list \<Rightarrow> nat" where
  "count_events P tr = length (filter P tr)"

text \<open>What the \<open>finally\<close> block of \<open>tts_worker\<close> leaves in the trace when it resumes capture.\<close>

definition resume_events :: "open_outcome \<Rightarrow> event list" where
  "resume_events dev =
     (case dev of
        OpenRaises e \<Rightarrow> [UiLog (NoSePudoReanudar e)]
      | StartRaises e \<Rightarrow> [UiLog (NoSePudoReanudar e)]
      | StreamStarted \<Rightarrow> [OnStatus Grabando, UiLog CapturaIniciada])"

subsection \<open>Concrete engines and environments\<close>

text \<open>
  Synthesizers that always succeed, always fail, and fail on the first attempt only; an
  engine that is capturing on stream 0; an engine configured with a backoff of
  \<open>1e10\<close> seconds; and three environments for the handling of one
  phrase: the input device cannot be reopened after playback, the stop signal is raised
  during a playback that fails, and the synthesizer is down.
\<close>

definition always_succeeds :: "int \<Rightarrow> exn option" where
  "always_succeeds n = None"

definition always_fails :: "int \<Rightarrow> exn option" where
  "always_fails n = Some (LibraryError ''NoAudioReceived'')"

definition fails_once :: "int \<Rightarrow> exn option" where
  "fails_once n = (if n = 1 then Some (LibraryError ''NoAudioReceived'') else None)"

definition capturing :: engine where
  "capturing = (init 0 True)\<lparr>stream_in := Some 0, opened := {0}, running := {0}, next_stream := 1\<rparr>"

definition huge_backoff :: engine where
  "huge_backoff = (init 0 True)\<lparr>tts_backoff := 10000000000\<rparr>"

definition device_lost :: phrase_env where
  "device_lost =
     \<lparr> dev_close = StreamClosed, synth = always_succeeds, decode = None, export = None,
       play = None, stop_during = False,
       dev_open = OpenRaises (LibraryError ''PortAudioError'') \<rparr>"

definition stopped_meanwhile :: phrase_env where
  "stopped_meanwhile =
     \<lparr> dev_close = StreamClosed, synth = always_succeeds, decode = None, export = None,
       play = Some (LibraryError ''PortAudioError''), stop_during = True,
       dev_open = StreamStarted \<rparr>"

definition synthesis_down :: phrase_env where
  "synthesis_down =
     \<lparr> dev_close = StreamClosed, synth = always_fails, decode = None, export = None,
       play = None, stop_during = False, dev_open = StreamStarted \<rparr>"

text \<open>
  Turns of the segmentation loop in which the recognizer reports the partial text \<open>p\<close>,
  and in which it declares the text \<open>r\<close> final, at the clock reading \<open>t\<close>; and an engine
  with three frames waiting in the frame queue.
\<close>

definition partial_at :: "string \<Rightarrow> real \<Rightarrow> asr_env" where
  "partial_at p t =
     \<lparr> accept = False, result_text = None, partial_text = Some p, now = t,
       t_check = t, final_text = None, t_reset = t \<rparr>"

definition final_at :: "string \<Rightarrow> real \<Rightarrow> asr_env" where
  "final_at r t =
     \<lparr> accept = True, result_text = Some r, partial_text = None, now = t,
       t_check = t, final_text = Some r, t_reset = t \<rparr>"

definition three_frames :: engine where
  "three_frames = (init 0 True)\<lparr>audio_q := [[0.1], [0.2], [0.1]]\<rparr>"

text \<open>
  The partial texts in a trace: the events that surface one, and the text surfaced last.
\<close>

fun is_on_partial :: "event \<Rightarrow> bool" where
  "is_on_partial (OnPartial p) = True"
| "is_on_partial e = False"

fun last_surfaced :: "event list \<Rightarrow> string option" where
  "last_surfaced [] = None"
| "last_surfaced (e # es) =
     (case last_surfaced es of
        Some p \<Rightarrow> Some p
      | None \<Rightarrow> (case e of OnPartial p \<Rightarrow> Some p | _ \<Rightarrow> None))"

text \<open>
  The clock of a turn of the segmentation loop does not read less than \<open>t\<close>; and what a
  run under such clocks keeps: the last surfaced partial is not older than \<open>t\<close>, and the
  throttle is \<open>th\<close>.
\<close>

fun clock_from :: "real \<Rightarrow> action \<Rightarrow> bool" where
  "clock_from t (AsrStep i env) = (t \<le> now env)"
| "clock_from t a = True"

definition throttle_inv :: "real \<Rightarrow> real \<Rightarrow> engine \<Rightarrow> bool" where
  "throttle_inv t th s = (t \<le> last_partial_time s \<and> partial_throttle_sec s = th)"

section \<open>Properties\<close>

subsection \<open>What the operations preserve\<close>

lemmas cb_defs = call_def ui_log_def on_status_def on_partial_def on_final_def

lemma phrase_inv_call:
  "phrase_inv m tr0 s \<Longrightarrow> (\<And>t. e \<noteq> OnFinal t) \<Longrightarrow> phrase_inv m tr0 (call e s)"
  by (auto simp: phrase_inv_def call_def)

lemma phrase_inv_ui_log: "phrase_inv m tr0 s \<Longrightarrow> phrase_inv m tr0 (ui_log x s)"
  by (simp add: ui_log_def phrase_inv_call)

lemma phrase_inv_on_status: "phrase_inv m tr0 s \<Longrightarrow> phrase_inv m tr0 (on_status x s)"
  by (simp add: on_status_def phrase_inv_call)

lemma phrase_inv_on_partial: "phrase_inv m tr0 s \<Longrightarrow> phrase_inv m tr0 (on_partial x s)"
  by (simp add: on_partial_def phrase_inv_call)

lemma phrase_inv_emit: "phrase_inv m tr0 s \<Longrightarrow> phrase_inv m tr0 (emit_phrase s tx)"
  by (auto simp: phrase_inv_def emit_phrase_def cb_defs Let_def)

lemma phrase_inv_upd [simp]:
  "phrase_inv m tr0 (s\<lparr>audio_q := a\<rparr>) = phrase_inv m tr0 s"
  "phrase_inv m tr0 (s\<lparr>stop_event := b\<rparr>) = phrase_inv m tr0 s"
  "phrase_inv m tr0 (s\<lparr>stream_in := c\<rparr>) = phrase_inv m tr0 s"
  "phrase_inv m tr0 (s\<lparr>t_asr := d\<rparr>) = phrase_inv m tr0 s"
  "phrase_inv m tr0 (s\<lparr>t_tts := d\<rparr>) = phrase_inv m tr0 s"
  "phrase_inv m tr0 (s\<lparr>last_partial := f\<rparr>) = phrase_inv m tr0 s"
  "phrase_inv m tr0 (s\<lparr>last_partial_time := g\<rparr>) = phrase_inv m tr0 s"
  "phrase_inv m tr0 (s\<lparr>last_activity_time := g\<rparr>) = phrase_inv m tr0 s"
  "phrase_inv m tr0 (s\<lparr>speech_seen_this_segment := b\<rparr>) = phrase_inv m tr0 s"
  "phrase_inv m tr0 (s\<lparr>opened := i\<rparr>) = phrase_inv m tr0 s"
  "phrase_inv m tr0 (s\<lparr>running := i\<rparr>) = phrase_inv m tr0 s"
  "phrase_inv m tr0 (s\<lparr>next_stream := j\<rparr>) = phrase_inv m tr0 s"
  "phrase_inv m tr0 (s\<lparr>threads := k\<rparr>) = phrase_inv m tr0 s"
  by (simp_all add: phrase_inv_def)

lemma phrase_inv_shrink:
  "phrase_inv m tr0 s \<Longrightarrow> set q \<subseteq> set (phrase_q s) \<Longrightarrow> phrase_inv m tr0 (s\<lparr>phrase_q := q\<rparr>)"
  by (auto simp: phrase_inv_def)

lemma phrase_inv_reset: "phrase_inv m tr0 s \<Longrightarrow> phrase_inv m tr0 (reset_partials s t)"
  by (simp add: reset_partials_def)

lemma phrase_inv_silence:
  "phrase_inv m tr0 s \<Longrightarrow> phrase_inv m tr0 (finalize_by_silence s tc fin tr)"
  by (simp add: finalize_by_silence_def Let_def phrase_inv_reset phrase_inv_emit phrase_inv_call)

lemma phrase_inv_result: "phrase_inv m tr0 s \<Longrightarrow> phrase_inv m tr0 (handle_result env s)"
  by (simp add: handle_result_def Let_def phrase_inv_reset phrase_inv_emit phrase_inv_call)

lemma phrase_inv_partial: "phrase_inv m tr0 s \<Longrightarrow> phrase_inv m tr0 (handle_partial env s)"
  by (simp add: handle_partial_def Let_def phrase_inv_silence phrase_inv_on_partial phrase_inv_call)

lemma phrase_inv_asr_body: "phrase_inv m tr0 s \<Longrightarrow> phrase_inv m tr0 (asr_body env s)"
  by (simp add: asr_body_def Let_def phrase_inv_silence phrase_inv_result phrase_inv_partial
      phrase_inv_call split: list.splits)

lemma phrase_inv_asr_exit: "phrase_inv m tr0 s \<Longrightarrow> phrase_inv m tr0 (asr_exit env s)"
  by (simp add: asr_exit_def Let_def phrase_inv_ui_log phrase_inv_emit phrase_inv_call)

lemma phrase_inv_asr_worker:
  "phrase_inv m tr0 s \<Longrightarrow> phrase_inv m tr0 (snd (asr_worker env pc s))"
  by (simp add: asr_worker_def phrase_inv_ui_log phrase_inv_asr_body phrase_inv_asr_exit
      split: tstate.splits)

lemma phrase_inv_start_input:
  "phrase_inv m tr0 s \<Longrightarrow> phrase_inv m tr0 (snd (start_input s dev))"
  by (simp add: start_input_def Let_def phrase_inv_ui_log phrase_inv_on_status
      split: open_outcome.splits)

lemma phrase_inv_stop_input:
  "phrase_inv m tr0 s \<Longrightarrow> phrase_inv m tr0 (stop_input s dev)"
  by (simp add: stop_input_def stream_stop_close_def Let_def phrase_inv_ui_log
      phrase_inv_on_status split: option.splits close_outcome.splits)

lemma phrase_inv_attempts:
  "phrase_inv m tr0 s \<Longrightarrow> phrase_inv m tr0 (snd (tts_attempts sy tx k n s))"
proof (induction sy tx k n s rule: tts_attempts.induct)
  case (1 sy tx k n s)
  note eq = tts_attempts.simps[of sy tx k n s]
  show ?case
  proof (cases "k < n")
    case True
    with "1.prems" show ?thesis by (simp add: eq)
  next
    case False
    note nk = this
    let ?s1 = "call (Synthesize tx) s"
    have i1: "phrase_inv m tr0 ?s1" using "1.prems" by (simp add: phrase_inv_call)
    show ?thesis
    proof (cases "sy n")
      case None
      with nk i1 show ?thesis by (simp add: eq)
    next
      case (Some e)
      note se = this
      let ?s2 = "ui_log (TtsReintento n e) ?s1"
      have i2: "phrase_inv m tr0 ?s2" using i1 by (rule phrase_inv_ui_log)
      show ?thesis
      proof (cases "time_sleep (tts_backoff ?s2 * real_of_int n)")
        case (Some x)
        with nk se i2 show ?thesis by (simp add: eq Let_def)
      next
        case None
        have "phrase_inv m tr0 (call (Sleep (tts_backoff ?s2 * real_of_int n)) ?s2)"
          using i2 by (simp add: phrase_inv_call)
        from "1.IH"[OF _ refl se refl None this] nk
        have "phrase_inv m tr0 (snd (tts_attempts sy tx k (n + 1)
                 (call (Sleep (tts_backoff ?s2 * real_of_int n)) ?s2)))" by simp
        with nk se None show ?thesis by (simp add: eq Let_def)
      qed
    qed
  qed
qed

lemma phrase_inv_retries:
  "phrase_inv m tr0 s \<Longrightarrow> phrase_inv m tr0 (snd (tts_with_retries sy tx s))"
  by (simp add: tts_with_retries_def phrase_inv_attempts)

lemma phrase_inv_try:
  assumes "phrase_inv m tr0 s"
  shows "phrase_inv m tr0 (snd (tts_try env tx s))"
proof (cases "ffmpeg_available s")
  case False
  with assms show ?thesis by (simp add: tts_try_def phrase_inv_ui_log)
next
  case True
  obtain r s1 where r: "tts_with_retries (synth env) tx s = (r, s1)" by (cases "tts_with_retries (synth env) tx s")
  have i1: "phrase_inv m tr0 s1" using phrase_inv_retries[OF assms, of "synth env" tx] r by simp
  show ?thesis using True r i1
    by (simp add: tts_try_def Let_def phrase_inv_call phrase_inv_on_status
        split: option.splits)
qed

lemma phrase_inv_finally:
  "phrase_inv m tr0 s \<Longrightarrow> phrase_inv m tr0 (tts_finally env s)"
  using phrase_inv_start_input[of m tr0 s "dev_open env"]
  by (auto simp: tts_finally_def phrase_inv_ui_log split: prod.splits option.splits)

lemma phrase_inv_handle:
  assumes "phrase_inv m tr0 s"
  shows "phrase_inv m tr0 (handle_phrase env tx s)"
proof -
  let ?s0 = "if ducking s then stop_input s (dev_close env) else s"
  have i0: "phrase_inv m tr0 ?s0" using assms by (simp add: phrase_inv_stop_input)
  obtain r s1 where r: "tts_try env tx ?s0 = (r, s1)" by (cases "tts_try env tx ?s0")
  have i1: "phrase_inv m tr0 s1" using phrase_inv_try[OF i0, of env tx] r by simp
  let ?s2 = "case r of Raised e \<Rightarrow> ui_log (TtsError e) s1 | _ \<Rightarrow> s1"
  have i2: "phrase_inv m tr0 ?s2" using i1 by (simp add: phrase_inv_ui_log split: body_exit.splits)
  have "phrase_inv m tr0 (tts_finally env (?s2\<lparr>stop_event := stop_event ?s2 \<or> stop_during env\<rparr>))"
    by (rule phrase_inv_finally) (simp add: i2)
  then show ?thesis using r by (simp add: handle_phrase_def Let_def)
qed

lemma phrase_inv_tts_body: "phrase_inv m tr0 s \<Longrightarrow> phrase_inv m tr0 (tts_body env s)"
  by (auto simp: tts_body_def Let_def split: list.splits
      intro!: phrase_inv_handle phrase_inv_shrink)

lemma phrase_inv_tts_worker:
  "phrase_inv m tr0 s \<Longrightarrow> phrase_inv m tr0 (snd (tts_worker env pc s))"
  by (simp add: tts_worker_def phrase_inv_ui_log phrase_inv_tts_body split: tstate.splits)

lemma phrase_inv_start: "phrase_inv m tr0 s \<Longrightarrow> phrase_inv m tr0 (snd (start s dev))"
  using phrase_inv_start_input[of m tr0 "s\<lparr>stop_event := False\<rparr>" dev]
  by (auto simp: start_def Let_def split: prod.splits option.splits)

lemma drain_empty: "drain q = []"
  by (induction q) simp_all

lemma phrase_inv_stop: "phrase_inv m tr0 s \<Longrightarrow> phrase_inv m tr0 (stop s dev)"
  using phrase_inv_stop_input[of m tr0 "s\<lparr>stop_event := True\<rparr>" dev]
  by (simp add: stop_def Let_def drain_empty phrase_inv_shrink)

lemma phrase_inv_thread_step:
  assumes "\<And>pc s. phrase_inv m tr0 s \<Longrightarrow> phrase_inv m tr0 (snd (body pc s))"
    and "phrase_inv m tr0 s"
  shows "phrase_inv m tr0 (thread_step i w body s)"
proof (cases "i < length (threads s) \<and> fst (threads s ! i) = w")
  case False
  with assms(2) show ?thesis by (auto simp: thread_step_def)
next
  case True
  obtain pc s1 where b: "body (snd (threads s ! i)) s = (pc, s1)"
    by (cases "body (snd (threads s ! i)) s")
  have "phrase_inv m tr0 s1" using assms(1)[OF assms(2), of "snd (threads s ! i)"] b by simp
  with True b show ?thesis by (simp add: thread_step_def)
qed

lemma phrase_inv_step: "phrase_inv m tr0 s \<Longrightarrow> phrase_inv m tr0 (step s a)"
proof (cases a)
  case (FramePut f)
  assume "phrase_inv m tr0 s"
  with FramePut show ?thesis by (simp add: audio_put_def)
next
  case (AsrStep i env)
  assume "phrase_inv m tr0 s"
  with AsrStep show ?thesis by (simp add: phrase_inv_thread_step phrase_inv_asr_worker)
next
  case (TtsStep i env)
  assume "phrase_inv m tr0 s"
  with TtsStep show ?thesis by (simp add: phrase_inv_thread_step phrase_inv_tts_worker)
next
  case (CallStart dev)
  assume "phrase_inv m tr0 s"
  with CallStart show ?thesis by (simp add: phrase_inv_start)
next
  case (CallStop dev)
  assume "phrase_inv m tr0 s"
  with CallStop show ?thesis by (simp add: phrase_inv_stop)
qed

lemma phrase_inv_run: "phrase_inv m tr0 s \<Longrightarrow> phrase_inv m tr0 (run s acts)"
  unfolding run_def by (induction acts arbitrary: s) (simp_all add: phrase_inv_step)


subsection \<open>C2: short phrases never reach the phrase queue\<close>

text \<open>
  Claim C2. A candidate phrase shorter than \<open>min_phrase_len\<close> is neither enqueued nor
  reported: \<open>_emit_phrase\<close> returns the engine as it was, trace included. And whatever
  the threads, \<open>start\<close> and \<open>stop\<close> do afterwards, in any order, a phrase queue whose
  phrases have at least \<open>min_phrase_len\<close> code points keeps that property, every
  finalized-phrase callback made meanwhile is for such a phrase, and \<open>min_phrase_len\<close>
  is not changed.
\<close>

theorem short_phrases_never_enqueued:
  "(int (length tx) < min_phrase_len s \<longrightarrow> emit_phrase s tx = s)
   \<and> ((\<forall>t \<in> set (phrase_q s). min_phrase_len s \<le> int (length t)) \<longrightarrow>
        (\<forall>t \<in> set (phrase_q (run s acts)). min_phrase_len s \<le> int (length t))
        \<and> (\<forall>t. OnFinal t \<in> set (trace (run s acts)) \<longrightarrow>
               OnFinal t \<in> set (trace s) \<or> min_phrase_len s \<le> int (length t))
        \<and> min_phrase_len (run s acts) = min_phrase_len s)"
proof -
  have a: "int (length tx) < min_phrase_len s \<longrightarrow> emit_phrase s tx = s"
    by (simp add: emit_phrase_def)
  have b: "phrase_inv (min_phrase_len s) (trace s) (run s acts)"
    if "\<forall>t \<in> set (phrase_q s). min_phrase_len s \<le> int (length t)"
  proof (rule phrase_inv_run)
    show "phrase_inv (min_phrase_len s) (trace s) s"
      using that by (simp add: phrase_inv_def)
  qed
  show ?thesis using a b unfolding phrase_inv_def by blast
qed

theorem short_phrases_never_enqueued_witness:
  "int (length ''hola'') < min_phrase_len (init 0 True)
   \<and> emit_phrase (init 0 True) ''hola'' = init 0 True
   \<and> min_phrase_len ((init 0 True)\<lparr>phrase_q := [''hola mundo'']\<rparr>) \<le> int (length ''hola mundo'')
   \<and> min_phrase_len (run ((init 0 True)\<lparr>phrase_q := [''hola mundo'']\<rparr>) [FramePut [0]])
       \<le> int (length (hd (phrase_q
             (run ((init 0 True)\<lparr>phrase_q := [''hola mundo'']\<rparr>) [FramePut [0]]))))"
  using short_phrases_never_enqueued [of "''hola''" "init 0 True" "[]"]
    short_phrases_never_enqueued [of "[]" "(init 0 True)\<lparr>phrase_q := [''hola mundo'']\<rparr>"
      "[FramePut [0]]"]
  by (simp add: init_def run_def audio_put_def)

subsection \<open>C4: the silence timeout emits at most one phrase\<close>

text \<open>
  Claim C4. \<open>_finalize_by_silence\<close> does nothing unless speech was seen in the segment
  and the inactivity has reached \<open>silence_finalize_sec\<close>. When it fires it asks the
  recognizer for its final result once, emits the stripped text as a phrase exactly when
  it is non-empty and has at least \<open>min_phrase_len\<close> code points, and resets the segment
  (speech flag cleared, last partial emptied, activity time set to the clock), so that a
  second silence check, at any time and whatever the recognizer would answer, leaves the
  engine as it is. Two silence checks in a row add at most one phrase to the queue.
\<close>

theorem silence_timeout_emits_at_most_once:
  "(\<not> (speech_seen_this_segment s \<and> silence_finalize_sec s \<le> tc - last_activity_time s) \<longrightarrow>
      finalize_by_silence s tc fin tr = s)
   \<and> (speech_seen_this_segment s \<and> silence_finalize_sec s \<le> tc - last_activity_time s \<longrightarrow>
        trace (finalize_by_silence s tc fin tr) =
          trace s @ RecFinalResult #
            (if strip (get_or_empty fin) \<noteq> []
                \<and> min_phrase_len s \<le> int (length (strip (get_or_empty fin)))
             then [OnFinal (strip (get_or_empty fin))] else [])
        \<and> phrase_q (finalize_by_silence s tc fin tr) =
          phrase_q s @
            (if strip (get_or_empty fin) \<noteq> []
                \<and> min_phrase_len s \<le> int (length (strip (get_or_empty fin)))
             then [strip (get_or_empty fin)] else [])
        \<and> \<not> speech_seen_this_segment (finalize_by_silence s tc fin tr)
        \<and> last_partial (finalize_by_silence s tc fin tr) = []
        \<and> last_activity_time (finalize_by_silence s tc fin tr) = tr
        \<and> finalize_by_silence (finalize_by_silence s tc fin tr) tc2 fin2 tr2 =
            finalize_by_silence s tc fin tr)
   \<and> length (phrase_q (finalize_by_silence (finalize_by_silence s tc fin tr) tc2 fin2 tr2))
        \<le> length (phrase_q s) + 1"
  by (simp add: finalize_by_silence_def reset_partials_def emit_phrase_def cb_defs Let_def)

theorem silence_timeout_emits_at_most_once_witness:
  "speech_seen_this_segment ((init 100 True)\<lparr>speech_seen_this_segment := True\<rparr>)
   \<and> silence_finalize_sec ((init 100 True)\<lparr>speech_seen_this_segment := True\<rparr>)
       \<le> 101 - last_activity_time ((init 100 True)\<lparr>speech_seen_this_segment := True\<rparr>)
   \<and> phrase_q (finalize_by_silence ((init 100 True)\<lparr>speech_seen_this_segment := True\<rparr>)
                 101 (Some ''  hola mundo '') 102) = [''hola mundo'']
   \<and> trace (finalize_by_silence ((init 100 True)\<lparr>speech_seen_this_segment := True\<rparr>)
                 101 (Some ''  hola mundo '') 102) = [RecFinalResult, OnFinal ''hola mundo'']
   \<and> finalize_by_silence
        (finalize_by_silence ((init 100 True)\<lparr>speech_seen_this_segment := True\<rparr>)
           101 (Some ''  hola mundo '') 102) 103 (Some ''hola mundo'') 104
      = finalize_by_silence ((init 100 True)\<lparr>speech_seen_this_segment := True\<rparr>)
           101 (Some ''  hola mundo '') 102"
  using silence_timeout_emits_at_most_once
    [of "(init 100 True)\<lparr>speech_seen_this_segment := True\<rparr>" 101 "Some ''  hola mundo ''" 102
        103 "Some ''hola mundo''" 104]
  by (simp add: init_def strip_def isspace_def get_or_empty_def)

subsection \<open>C10: a short or empty forced result is dropped silently\<close>

text \<open>
  Claim C10. When the silence check fires and the forced final text, stripped, is empty
  or shorter than \<open>min_phrase_len\<close>, the engine changes in exactly this: the request to
  the recognizer is recorded, the speech flag is cleared, the last partial is emptied and
  the activity time is the clock. The phrase queue is unchanged and no callback is made.
\<close>

theorem silence_timeout_discards_short_result:
  assumes "speech_seen_this_segment s"
    and "silence_finalize_sec s \<le> tc - last_activity_time s"
    and "strip (get_or_empty fin) = []
         \<or> int (length (strip (get_or_empty fin))) < min_phrase_len s"
  shows "finalize_by_silence s tc fin tr =
           s\<lparr>trace := trace s @ [RecFinalResult], last_partial := [],
             speech_seen_this_segment := False, last_activity_time := tr\<rparr>
         \<and> phrase_q (finalize_by_silence s tc fin tr) = phrase_q s
         \<and> trace (finalize_by_silence s tc fin tr) = trace s @ [RecFinalResult]"
  using assms
  by (auto simp: finalize_by_silence_def reset_partials_def emit_phrase_def cb_defs Let_def)

theorem silence_timeout_discards_short_result_witness:
  "speech_seen_this_segment ((init 100 True)\<lparr>speech_seen_this_segment := True\<rparr>)
   \<and> silence_finalize_sec ((init 100 True)\<lparr>speech_seen_this_segment := True\<rparr>)
       \<le> 101 - last_activity_time ((init 100 True)\<lparr>speech_seen_this_segment := True\<rparr>)
   \<and> int (length (strip (get_or_empty (Some '' hola '')))) < 
        min_phrase_len ((init 100 True)\<lparr>speech_seen_this_segment := True\<rparr>)
   \<and> finalize_by_silence ((init 100 True)\<lparr>speech_seen_this_segment := True\<rparr>)
        101 (Some '' hola '') 102
      = (init 102 True)\<lparr>trace := [RecFinalResult]\<rparr>"
proof -
  have h1: "speech_seen_this_segment ((init 100 True)\<lparr>speech_seen_this_segment := True\<rparr>)"
    by simp
  have h2: "silence_finalize_sec ((init 100 True)\<lparr>speech_seen_this_segment := True\<rparr>)
       \<le> 101 - last_activity_time ((init 100 True)\<lparr>speech_seen_this_segment := True\<rparr>)"
    by (simp add: init_def)
  have h3: "int (length (strip (get_or_empty (Some '' hola '')))) < 
        min_phrase_len ((init 100 True)\<lparr>speech_seen_this_segment := True\<rparr>)"
    by (simp add: init_def strip_def isspace_def get_or_empty_def)
  from silence_timeout_discards_short_result [OF h1 h2 disjI2, OF h3, of 102] h1 h2 h3
  show ?thesis by (simp add: init_def)
qed

subsection \<open>Capture control\<close>

lemma stop_input_stopped: "stream_in s = None \<Longrightarrow> stop_input s dev = s"
  by (simp add: stop_input_def)

lemma stop_input_stream: "stream_in (stop_input s dev) = None"
  by (simp add: stop_input_def cb_defs Let_def split: option.splits)

subsection \<open>C6: stop drains both queues and can be repeated\<close>

text \<open>
  Claim C6 says that \<open>stop\<close> stops the frame source. \<open>stop_input\<close> catches whatever
  \<open>stop()\<close> and \<open>close()\<close> raise on the stream and forgets the stream in every case. When
  \<open>stop()\<close> raises on the stream of a capturing engine, \<open>stop\<close> returns with both queues
  empty and no stream held, but stream 0 is still running and the next frame it delivers
  is in the frame queue again. And \<open>stop\<close> only reaches the stream the engine holds: after
  \<open>start_input\<close> was called twice, stream 0 keeps running although the device closed
  stream 1 without an error.
\<close>

theorem stop_leaves_capture_running_counterexample:
  "running (stop capturing (StopRaises (LibraryError ''PortAudioError''))) = {0}
   \<and> stream_in (stop capturing (StopRaises (LibraryError ''PortAudioError''))) = None
   \<and> audio_q (stop capturing (StopRaises (LibraryError ''PortAudioError''))) = []
   \<and> audio_q (step (stop capturing (StopRaises (LibraryError ''PortAudioError'')))
                (FramePut [0.1])) = [[0.1]]
   \<and> running (stop (snd (start_input (snd (start_input (init 0 True) StreamStarted))
                StreamStarted)) StreamClosed) = {0}"
  by (simp add: stop_def stop_input_def stream_stop_close_def start_input_def capturing_def
      audio_put_def init_def cb_defs Let_def)

text \<open>
  Claim C6 as amended. For every engine and whatever the device does when the stream is
  stopped and closed, \<open>stop\<close> returns with the stop signal raised, no input stream held
  and both queues empty. It processes nothing: the only calls it makes are the two notices
  of \<open>stop_input\<close>, and only when a stream was held. The stream the engine held no longer
  runs when \<open>stop()\<close> on it returned, and no longer exists when \<open>close()\<close> returned too;
  when \<open>stop()\<close> raised it is left as it was. Every other stream is left as it was, and
  nothing else in the engine changes. A second \<open>stop\<close> changes nothing, and \<open>stop\<close> on an
  engine that was never started only raises the stop signal.
\<close>

theorem stop_drains_and_is_idempotent:
  "stop_event (stop s dev)
   \<and> stream_in (stop s dev) = None
   \<and> audio_q (stop s dev) = []
   \<and> phrase_q (stop s dev) = []
   \<and> trace (stop s dev) =
       trace s @ (if stream_in s = None then []
                  else [UiLog CapturaDetenida, OnStatus MicrofonoDetenido])
   \<and> running (stop s dev) =
       (case stream_in s of
          None \<Rightarrow> running s
        | Some h \<Rightarrow>
            (case dev of
               StopRaises e \<Rightarrow> running s
             | CloseRaises e \<Rightarrow> running s - {h}
             | StreamClosed \<Rightarrow> running s - {h}))
   \<and> opened (stop s dev) =
       (case stream_in s of
          None \<Rightarrow> opened s
        | Some h \<Rightarrow>
            (case dev of
               StopRaises e \<Rightarrow> opened s
             | CloseRaises e \<Rightarrow> opened s
             | StreamClosed \<Rightarrow> opened s - {h}))
   \<and> stop s dev =
       s\<lparr>stop_event := True, stream_in := None, audio_q := [], phrase_q := [],
         trace := trace (stop s dev), running := running (stop s dev),
         opened := opened (stop s dev)\<rparr>
   \<and> stop (stop s dev) dev2 = stop s dev
   \<and> stop (init t0 ff) dev = (init t0 ff)\<lparr>stop_event := True\<rparr>"
proof -
  have a: "stop (stop s dev) dev2 = stop s dev"
    by (cases "stream_in s"; cases dev)
      (simp_all add: stop_def Let_def drain_empty stop_input_def stream_stop_close_def cb_defs)
  have b: "stop (init t0 ff) dev = (init t0 ff)\<lparr>stop_event := True\<rparr>"
    by (simp add: stop_def Let_def stop_input_def init_def)
  have c: "stop_event (stop s dev) \<and> stream_in (stop s dev) = None
      \<and> audio_q (stop s dev) = [] \<and> phrase_q (stop s dev) = []"
    by (simp add: stop_def Let_def drain_empty stop_input_def stream_stop_close_def cb_defs
        split: option.splits close_outcome.splits)
  have d: "trace (stop s dev) =
       trace s @ (if stream_in s = None then []
                  else [UiLog CapturaDetenida, OnStatus MicrofonoDetenido])"
    by (simp add: stop_def Let_def stop_input_def stream_stop_close_def cb_defs
        split: option.splits close_outcome.splits)
  have e: "running (stop s dev) =
       (case stream_in s of
          None \<Rightarrow> running s
        | Some h \<Rightarrow>
            (case dev of
               StopRaises e \<Rightarrow> running s
             | CloseRaises e \<Rightarrow> running s - {h}
             | StreamClosed \<Rightarrow> running s - {h}))"
    by (cases "stream_in s"; cases dev)
      (simp_all add: stop_def Let_def stop_input_def stream_stop_close_def cb_defs)
  have f: "opened (stop s dev) =
       (case stream_in s of
          None \<Rightarrow> opened s
        | Some h \<Rightarrow>
            (case dev of
               StopRaises e \<Rightarrow> opened s
             | CloseRaises e \<Rightarrow> opened s
             | StreamClosed \<Rightarrow> opened s - {h}))"
    by (cases "stream_in s"; cases dev)
      (simp_all add: stop_def Let_def stop_input_def stream_stop_close_def cb_defs)
  have g: "stop s dev =
       s\<lparr>stop_event := True, stream_in := None, audio_q := [], phrase_q := [],
         trace := trace (stop s dev), running := running (stop s dev),
         opened := opened (stop s dev)\<rparr>"
    by (cases "stream_in s"; cases dev)
      (simp_all add: stop_def Let_def drain_empty stop_input_def stream_stop_close_def cb_defs)
  from a b c d e f g show ?thesis by blast
qed

theorem stop_drains_and_is_idempotent_witness:
  "stop ((init 0 True)\<lparr>stream_in := Some 0, opened := {0}, running := {0}, next_stream := 1,
        audio_q := [[0.5]], phrase_q := [''hola mundo'']\<rparr>) StreamClosed
      = (init 0 True)\<lparr>stop_event := True, next_stream := 1,
          trace := [UiLog CapturaDetenida, OnStatus MicrofonoDetenido]\<rparr>
   \<and> running (stop ((init 0 True)\<lparr>stream_in := Some 0, opened := {0}, running := {0},
        next_stream := 1, audio_q := [[0.5]], phrase_q := [''hola mundo'']\<rparr>)
          (CloseRaises (LibraryError ''PortAudioError''))) = {}
   \<and> opened (stop ((init 0 True)\<lparr>stream_in := Some 0, opened := {0}, running := {0},
        next_stream := 1, audio_q := [[0.5]], phrase_q := [''hola mundo'']\<rparr>)
          (CloseRaises (LibraryError ''PortAudioError''))) = {0}"
  using stop_drains_and_is_idempotent
    [of "(init 0 True)\<lparr>stream_in := Some 0, opened := {0}, running := {0}, next_stream := 1,
        audio_q := [[0.5]], phrase_q := [''hola mundo'']\<rparr>" StreamClosed StreamClosed 0 True]
    stop_drains_and_is_idempotent
    [of "(init 0 True)\<lparr>stream_in := Some 0, opened := {0}, running := {0}, next_stream := 1,
        audio_q := [[0.5]], phrase_q := [''hola mundo'']\<rparr>"
        "CloseRaises (LibraryError ''PortAudioError'')" StreamClosed 0 True]
  by (simp add: init_def stop_def stop_input_def stream_stop_close_def cb_defs Let_def)

subsection \<open>C7: start fails fast without a model\<close>

text \<open>
  Claim C7. When the model or the recognizer is not loaded, \<open>start\<close> raises
  \<open>RuntimeError\<close> and the engine and its world are exactly as before: the stop signal is
  not cleared, no stream is opened, no thread is created, the queues are untouched.
\<close>

theorem start_fails_fast_without_model:
  assumes "model s = None \<or> recognizer s = None"
  shows "start s dev = (Some (RuntimeError ModeloVoskNoCargado), s)"
  using assms by (auto simp: start_def)

theorem start_fails_fast_without_model_witness:
  "model (init 0 True) = None \<and> start (init 0 True) StreamStarted = (Some (RuntimeError ModeloVoskNoCargado), init 0 True)"
proof -
  have h: "model (init 0 True) = None \<or> recognizer (init 0 True) = None" by (simp add: init_def)
  from start_fails_fast_without_model [OF h, of StreamStarted] show ?thesis
    by (simp add: init_def)
qed

subsection \<open>C8: stopping capture twice is harmless, starting it twice is not\<close>

text \<open>
  Claim C8 says that \<open>start_input\<close> on a running capture is a no-op with a warning.
  The source has no such guard: started twice from a fresh engine, \<open>start_input\<close>
  opens stream 0 and then stream 1, both run, the engine holds stream 1 only, and the
  messages are the ordinary ones of a start; the second call changed the engine.
\<close>

theorem start_input_running_counterexample:
  "stream_in (snd (start_input (init 0 True) StreamStarted)) = Some 0
   \<and> running (snd (start_input (init 0 True) StreamStarted)) = {0}
   \<and> stream_in (snd (start_input (snd (start_input (init 0 True) StreamStarted)) StreamStarted))
       = Some 1
   \<and> running (snd (start_input (snd (start_input (init 0 True) StreamStarted)) StreamStarted))
       = {0, 1}
   \<and> opened (snd (start_input (snd (start_input (init 0 True) StreamStarted)) StreamStarted))
       = {0, 1}
   \<and> trace (snd (start_input (snd (start_input (init 0 True) StreamStarted)) StreamStarted))
       = [OnStatus Grabando, UiLog CapturaIniciada, OnStatus Grabando, UiLog CapturaIniciada]
   \<and> snd (start_input (snd (start_input (init 0 True) StreamStarted)) StreamStarted)
       \<noteq> snd (start_input (init 0 True) StreamStarted)"
proof -
  have "stream_in (snd (start_input (snd (start_input (init 0 True) StreamStarted)) StreamStarted))
       \<noteq> stream_in (snd (start_input (init 0 True) StreamStarted))"
    by (simp add: start_input_def init_def cb_defs Let_def)
  then have "snd (start_input (snd (start_input (init 0 True) StreamStarted)) StreamStarted)
       \<noteq> snd (start_input (init 0 True) StreamStarted)" by metis
  then show ?thesis
    by (auto simp: start_input_def init_def cb_defs Let_def)
qed

text \<open>
  Claim C8 as amended. \<open>stop_input\<close> on a stopped capture is a no-op, it always leaves
  the capture stopped, and a second \<open>stop_input\<close> changes nothing. \<open>start_input\<close> is not
  guarded and has no warning: whatever \<open>stream_in\<close> held, it asks the device layer for a
  fresh stream. When the stream is opened and started, it is stored in \<open>stream_in\<close> and
  the status and the log line of a start are reported. When opening raises, the exception
  leaves \<open>start_input\<close> with the engine unchanged and nothing reported. When starting
  raises, the exception leaves \<open>start_input\<close> with the opened stream stored in
  \<open>stream_in\<close>, not running, and nothing reported. In every case each stream that was
  running keeps running.
\<close>

theorem stop_input_idempotent_start_input_unguarded:
  "(stream_in s = None \<longrightarrow> stop_input s dev = s)
   \<and> stream_in (stop_input s dev) = None
   \<and> stop_input (stop_input s dev) dev2 = stop_input s dev
   \<and> start_input s StreamStarted =
       (None, s\<lparr>stream_in := Some (next_stream s),
                opened := insert (next_stream s) (opened s),
                running := insert (next_stream s) (running s),
                next_stream := Suc (next_stream s),
                trace := trace s @ [OnStatus Grabando, UiLog CapturaIniciada]\<rparr>)
   \<and> start_input s (OpenRaises e) = (Some e, s)
   \<and> start_input s (StartRaises e) =
       (Some e, s\<lparr>stream_in := Some (next_stream s),
                  opened := insert (next_stream s) (opened s),
                  next_stream := Suc (next_stream s)\<rparr>)
   \<and> running s \<subseteq> running (snd (start_input s odev))"
proof -
  have a: "(stream_in s = None \<longrightarrow> stop_input s dev = s)
      \<and> stream_in (stop_input s dev) = None
      \<and> stop_input (stop_input s dev) dev2 = stop_input s dev"
    by (simp add: stop_input_stopped stop_input_stream)
  have b: "start_input s StreamStarted =
       (None, s\<lparr>stream_in := Some (next_stream s),
                opened := insert (next_stream s) (opened s),
                running := insert (next_stream s) (running s),
                next_stream := Suc (next_stream s),
                trace := trace s @ [OnStatus Grabando, UiLog CapturaIniciada]\<rparr>)"
    by (simp add: start_input_def Let_def cb_defs)
  have c: "start_input s (OpenRaises e) = (Some e, s)"
    by (simp add: start_input_def Let_def)
  have d: "start_input s (StartRaises e) =
       (Some e, s\<lparr>stream_in := Some (next_stream s),
                  opened := insert (next_stream s) (opened s),
                  next_stream := Suc (next_stream s)\<rparr>)"
    by (simp add: start_input_def Let_def)
  have e: "running s \<subseteq> running (snd (start_input s odev))"
    by (cases odev) (auto simp: start_input_def Let_def cb_defs)
  from a b c d e show ?thesis by blast
qed

theorem stop_input_idempotent_start_input_unguarded_witness:
  "stop_input (init 0 True) StreamClosed = init 0 True
   \<and> start_input capturing StreamStarted =
       (None, (init 0 True)\<lparr>stream_in := Some 1, opened := {0, 1}, running := {0, 1},
          next_stream := 2, trace := [OnStatus Grabando, UiLog CapturaIniciada]\<rparr>)
   \<and> start_input capturing (OpenRaises (LibraryError ''PortAudioError'')) =
       (Some (LibraryError ''PortAudioError''), capturing)
   \<and> start_input capturing (StartRaises (LibraryError ''PortAudioError'')) =
       (Some (LibraryError ''PortAudioError''),
        (init 0 True)\<lparr>stream_in := Some 1, opened := {0, 1}, running := {0},
          next_stream := 2\<rparr>)"
  using stop_input_idempotent_start_input_unguarded
      [of "init 0 True" StreamClosed StreamClosed "LibraryError ''PortAudioError''" StreamStarted]
    stop_input_idempotent_start_input_unguarded
      [of capturing StreamClosed StreamClosed "LibraryError ''PortAudioError''" StreamStarted]
  by (auto simp: init_def capturing_def)

subsection \<open>The retry loop and the handling of one phrase\<close>

lemma attempts_frame:
  "snd (tts_attempts sy tx m n s) = s\<lparr>trace := trace (snd (tts_attempts sy tx m n s))\<rparr>"
proof (induction sy tx m n s rule: tts_attempts.induct)
  case (1 sy tx m n s)
  note eq = tts_attempts.simps[of sy tx m n s]
  show ?case
  proof (cases "m < n")
    case True
    then show ?thesis by (simp add: eq)
  next
    case False
    note nm = this
    show ?thesis
    proof (cases "sy n")
      case None
      with nm show ?thesis by (simp add: eq cb_defs)
    next
      case (Some e)
      note se = this
      let ?s2 = "ui_log (TtsReintento n e) (call (Synthesize tx) s)"
      let ?s3 = "call (Sleep (tts_backoff ?s2 * real_of_int n)) ?s2"
      show ?thesis
      proof (cases "time_sleep (tts_backoff ?s2 * real_of_int n)")
        case (Some x)
        with nm se show ?thesis by (simp add: eq Let_def cb_defs)
      next
        case None
        from "1.IH"[OF _ refl se refl None] nm
        have ih: "snd (tts_attempts sy tx m (n + 1) ?s3) =
            ?s3\<lparr>trace := trace (snd (tts_attempts sy tx m (n + 1) ?s3))\<rparr>" by simp
        have st: "tts_attempts sy tx m n s = tts_attempts sy tx m (n + 1) ?s3"
          using nm se None by (simp add: eq Let_def)
        have "?s3\<lparr>trace := T\<rparr> = s\<lparr>trace := T\<rparr>" for T by (simp add: cb_defs)
        with ih have "snd (tts_attempts sy tx m (n + 1) ?s3) =
            s\<lparr>trace := trace (snd (tts_attempts sy tx m (n + 1) ?s3))\<rparr>" by simp
        then show ?thesis by (simp only: st)
      qed
    qed
  qed
qed

lemma attempts_all_fail:
  assumes "\<forall>j. n \<le> j \<and> j \<le> m \<longrightarrow>
             sy j \<noteq> None \<and> time_sleep (tts_backoff s * real_of_int j) = None"
  shows "tts_attempts sy tx m n s =
           (Some (RuntimeError TtsAgotoReintentos),
            s\<lparr>trace := trace s @ concat (map (failed_attempt (tts_backoff s) sy tx) [n..m])\<rparr>)"
  using assms
proof (induction sy tx m n s rule: tts_attempts.induct)
  case (1 sy tx m n s)
  note eq = tts_attempts.simps[of sy tx m n s]
  show ?case
  proof (cases "m < n")
    case True
    then show ?thesis by (simp add: eq)
  next
    case False
    then have nm: "n \<le> m" by simp
    with "1.prems" obtain e where e: "sy n = Some e" by auto
    let ?s2 = "ui_log (TtsReintento n e) (call (Synthesize tx) s)"
    let ?s3 = "call (Sleep (tts_backoff ?s2 * real_of_int n)) ?s2"
    have b: "tts_backoff ?s2 = tts_backoff s" by (simp add: cb_defs)
    have ok: "time_sleep (tts_backoff ?s2 * real_of_int n) = None"
      using "1.prems" nm b by simp
    have p1: "\<forall>j. n + 1 \<le> j \<and> j \<le> m \<longrightarrow>
             sy j \<noteq> None \<and> time_sleep (tts_backoff ?s3 * real_of_int j) = None"
      using "1.prems" by (simp add: cb_defs)
    from "1.IH"[OF _ refl e refl ok p1] False
    have ih: "tts_attempts sy tx m (n + 1) ?s3 =
           (Some (RuntimeError TtsAgotoReintentos),
            ?s3\<lparr>trace := trace ?s3 @
               concat (map (failed_attempt (tts_backoff ?s3) sy tx) [n + 1..m])\<rparr>)" by simp
    have un: "[n..m] = n # [n + 1..m]" using nm by (simp add: upto_rec1)
    have "tts_attempts sy tx m n s = tts_attempts sy tx m (n + 1) ?s3"
      using False e ok by (simp add: eq Let_def)
    moreover have "failed_attempt (tts_backoff s) sy tx n =
        [Synthesize tx, UiLog (TtsReintento n e), Sleep (tts_backoff s * real_of_int n)]"
      by (simp add: failed_attempt_def e)
    ultimately show ?thesis using ih
      by (simp add: un cb_defs)
  qed
qed

lemma attempts_success:
  assumes "n \<le> k" and "k \<le> m" and "sy k = None"
    and "\<forall>j. n \<le> j \<and> j < k \<longrightarrow>
           sy j \<noteq> None \<and> time_sleep (tts_backoff s * real_of_int j) = None"
  shows "tts_attempts sy tx m n s =
           (None,
            s\<lparr>trace := trace s @ concat (map (failed_attempt (tts_backoff s) sy tx) [n..k - 1])
                          @ [Synthesize tx]\<rparr>)"
  using assms
proof (induction sy tx m n s rule: tts_attempts.induct)
  case (1 sy tx m n s)
  note eq = tts_attempts.simps[of sy tx m n s]
  have nm: "\<not> m < n" using "1.prems"(1,2) by simp
  show ?case
  proof (cases "n = k")
    case True
    then have "sy n = None" using "1.prems"(3) by simp
    then have "tts_attempts sy tx m n s = (None, call (Synthesize tx) s)"
      using nm by (subst eq) simp
    then show ?thesis using True by (simp add: cb_defs)
  next
    case False
    then have nk: "n < k" using "1.prems"(1) by simp
    with "1.prems"(4) obtain e where e: "sy n = Some e" by auto
    let ?s2 = "ui_log (TtsReintento n e) (call (Synthesize tx) s)"
    let ?s3 = "call (Sleep (tts_backoff ?s2 * real_of_int n)) ?s2"
    have b: "tts_backoff ?s2 = tts_backoff s" by (simp add: cb_defs)
    have ok: "time_sleep (tts_backoff ?s2 * real_of_int n) = None"
      using "1.prems"(4) nk b by simp
    have p1: "n + 1 \<le> k" using nk by simp
    have p4: "\<forall>j. n + 1 \<le> j \<and> j < k \<longrightarrow>
           sy j \<noteq> None \<and> time_sleep (tts_backoff ?s3 * real_of_int j) = None"
      using "1.prems"(4) by (simp add: cb_defs)
    from "1.IH"[OF _ refl e refl ok p1 "1.prems"(2,3) p4] nm
    have ih: "tts_attempts sy tx m (n + 1) ?s3 =
           (None,
            ?s3\<lparr>trace := trace ?s3 @
               concat (map (failed_attempt (tts_backoff ?s3) sy tx) [n + 1..k - 1])
               @ [Synthesize tx]\<rparr>)" by simp
    have un: "[n..k - 1] = n # [n + 1..k - 1]" using nk by (simp add: upto_rec1)
    have "tts_attempts sy tx m n s = tts_attempts sy tx m (n + 1) ?s3"
      using nm e ok by (simp add: eq Let_def)
    moreover have "failed_attempt (tts_backoff s) sy tx n =
        [Synthesize tx, UiLog (TtsReintento n e), Sleep (tts_backoff s * real_of_int n)]"
      by (simp add: failed_attempt_def e)
    ultimately show ?thesis using ih
      by (simp add: un cb_defs)
  qed
qed

lemma attempts_sleep_refuses:
  assumes "n \<le> k" and "k \<le> m" and "sy k = Some e"
    and "time_sleep (tts_backoff s * real_of_int k) = Some x"
    and "\<forall>j. n \<le> j \<and> j < k \<longrightarrow>
           sy j \<noteq> None \<and> time_sleep (tts_backoff s * real_of_int j) = None"
  shows "tts_attempts sy tx m n s =
           (Some x,
            s\<lparr>trace := trace s @ concat (map (failed_attempt (tts_backoff s) sy tx) [n..k - 1])
                          @ [Synthesize tx, UiLog (TtsReintento k e)]\<rparr>)"
  using assms
proof (induction sy tx m n s rule: tts_attempts.induct)
  case (1 sy tx m n s)
  note eq = tts_attempts.simps[of sy tx m n s]
  have nm: "\<not> m < n" using "1.prems"(1,2) by simp
  show ?case
  proof (cases "n = k")
    case True
    then have "sy n = Some e" "time_sleep (tts_backoff s * real_of_int n) = Some x"
      using "1.prems"(3,4) by simp_all
    then have "tts_attempts sy tx m n s =
        (Some x, ui_log (TtsReintento n e) (call (Synthesize tx) s))"
      using nm by (subst eq) (simp add: Let_def cb_defs)
    then show ?thesis using True by (simp add: cb_defs)
  next
    case False
    then have nk: "n < k" using "1.prems"(1) by simp
    with "1.prems"(5) obtain e' where e': "sy n = Some e'" by auto
    let ?s2 = "ui_log (TtsReintento n e') (call (Synthesize tx) s)"
    let ?s3 = "call (Sleep (tts_backoff ?s2 * real_of_int n)) ?s2"
    have b: "tts_backoff ?s2 = tts_backoff s" by (simp add: cb_defs)
    have ok: "time_sleep (tts_backoff ?s2 * real_of_int n) = None"
      using "1.prems"(5) nk b by simp
    have p1: "n + 1 \<le> k" using nk by simp
    have p4: "time_sleep (tts_backoff ?s3 * real_of_int k) = Some x"
      using "1.prems"(4) by (simp add: cb_defs)
    have p5: "\<forall>j. n + 1 \<le> j \<and> j < k \<longrightarrow>
           sy j \<noteq> None \<and> time_sleep (tts_backoff ?s3 * real_of_int j) = None"
      using "1.prems"(5) by (simp add: cb_defs)
    from "1.IH"[OF _ refl e' refl ok p1 "1.prems"(2,3) p4 p5] nm
    have ih: "tts_attempts sy tx m (n + 1) ?s3 =
           (Some x,
            ?s3\<lparr>trace := trace ?s3 @
               concat (map (failed_attempt (tts_backoff ?s3) sy tx) [n + 1..k - 1])
               @ [Synthesize tx, UiLog (TtsReintento k e)]\<rparr>)" by simp
    have un: "[n..k - 1] = n # [n + 1..k - 1]" using nk by (simp add: upto_rec1)
    have "tts_attempts sy tx m n s = tts_attempts sy tx m (n + 1) ?s3"
      using nm e' ok by (simp add: eq Let_def)
    moreover have "failed_attempt (tts_backoff s) sy tx n =
        [Synthesize tx, UiLog (TtsReintento n e'), Sleep (tts_backoff s * real_of_int n)]"
      by (simp add: failed_attempt_def e')
    ultimately show ?thesis using ih
      by (simp add: un cb_defs)
  qed
qed

lemma count_events_append [simp]:
  "count_events P (xs @ ys) = count_events P xs + count_events P ys"
  by (simp add: count_events_def)

lemma count_events_Nil [simp]: "count_events P [] = 0"
  by (simp add: count_events_def)

lemma attempts_bound:
  "count_events is_synthesize (trace (snd (tts_attempts sy tx m n s)))
     \<le> count_events is_synthesize (trace s) + nat (m + 1 - n)"
proof (induction sy tx m n s rule: tts_attempts.induct)
  case (1 sy tx m n s)
  note eq = tts_attempts.simps[of sy tx m n s]
  show ?case
  proof (cases "m < n")
    case True
    then show ?thesis by (simp add: eq)
  next
    case False
    note nm = this
    show ?thesis
    proof (cases "sy n")
      case None
      with nm show ?thesis by (simp add: eq cb_defs count_events_def)
    next
      case (Some e)
      note se = this
      let ?s2 = "ui_log (TtsReintento n e) (call (Synthesize tx) s)"
      let ?s3 = "call (Sleep (tts_backoff ?s2 * real_of_int n)) ?s2"
      have c3: "count_events is_synthesize (trace ?s3)
                 = count_events is_synthesize (trace s) + 1"
        by (simp add: cb_defs count_events_def)
      show ?thesis
      proof (cases "time_sleep (tts_backoff ?s2 * real_of_int n)")
        case (Some x)
        with nm se show ?thesis by (simp add: eq Let_def cb_defs count_events_def)
      next
        case None
        from "1.IH"[OF _ refl se refl None] nm
        have "count_events is_synthesize (trace (snd (tts_attempts sy tx m (n + 1) ?s3)))
               \<le> count_events is_synthesize (trace ?s3) + nat (m + 1 - (n + 1))" by simp
        moreover have "tts_attempts sy tx m n s = tts_attempts sy tx m (n + 1) ?s3"
          using nm se None by (simp add: eq Let_def)
        ultimately show ?thesis using c3 nm by simp
      qed
    qed
  qed
qed

lemma attempts_quiet:
  "count_events is_tts_error (trace (snd (tts_attempts sy tx m n s)))
     = count_events is_tts_error (trace s)
   \<and> count_events ((=) Play) (trace (snd (tts_attempts sy tx m n s)))
     = count_events ((=) Play) (trace s)"
proof (induction sy tx m n s rule: tts_attempts.induct)
  case (1 sy tx m n s)
  note eq = tts_attempts.simps[of sy tx m n s]
  show ?case
  proof (cases "m < n")
    case True
    then show ?thesis by (simp add: eq)
  next
    case False
    note nm = this
    show ?thesis
    proof (cases "sy n")
      case None
      with nm show ?thesis by (simp add: eq cb_defs count_events_def)
    next
      case (Some e)
      note se = this
      let ?s2 = "ui_log (TtsReintento n e) (call (Synthesize tx) s)"
      let ?s3 = "call (Sleep (tts_backoff ?s2 * real_of_int n)) ?s2"
      have c3: "count_events is_tts_error (trace ?s3) = count_events is_tts_error (trace s)"
        "count_events ((=) Play) (trace ?s3) = count_events ((=) Play) (trace s)"
        by (simp_all add: cb_defs count_events_def)
      show ?thesis
      proof (cases "time_sleep (tts_backoff ?s2 * real_of_int n)")
        case (Some x)
        with nm se show ?thesis by (simp add: eq Let_def cb_defs count_events_def)
      next
        case None
        from "1.IH"[OF _ refl se refl None] nm
        have "count_events is_tts_error (trace (snd (tts_attempts sy tx m (n + 1) ?s3)))
               = count_events is_tts_error (trace ?s3)
            \<and> count_events ((=) Play) (trace (snd (tts_attempts sy tx m (n + 1) ?s3)))
               = count_events ((=) Play) (trace ?s3)" by simp
        moreover have "tts_attempts sy tx m n s = tts_attempts sy tx m (n + 1) ?s3"
          using nm se None by (simp add: eq Let_def)
        ultimately show ?thesis using c3 by simp
      qed
    qed
  qed
qed

lemma attempts_rel:
  "tts_backoff s' = tts_backoff s \<Longrightarrow>
     \<exists>r X. tts_attempts sy tx m n s = (r, s\<lparr>trace := trace s @ X\<rparr>)
          \<and> tts_attempts sy tx m n s' = (r, s'\<lparr>trace := trace s' @ X\<rparr>)"
proof (induction sy tx m n s arbitrary: s' rule: tts_attempts.induct)
  case (1 sy tx m n s)
  note eq = tts_attempts.simps[of sy tx m n s]
  note eq' = tts_attempts.simps[of sy tx m n s']
  show ?case
  proof (cases "m < n")
    case True
    then have "tts_attempts sy tx m n s =
          (Some (RuntimeError TtsAgotoReintentos), s\<lparr>trace := trace s @ []\<rparr>)"
      and "tts_attempts sy tx m n s' =
          (Some (RuntimeError TtsAgotoReintentos), s'\<lparr>trace := trace s' @ []\<rparr>)"
      by (simp_all add: eq eq')
    then show ?thesis by blast
  next
    case False
    note nm = this
    show ?thesis
    proof (cases "sy n")
      case None
      with nm have "tts_attempts sy tx m n s = (None, s\<lparr>trace := trace s @ [Synthesize tx]\<rparr>)"
        and "tts_attempts sy tx m n s' = (None, s'\<lparr>trace := trace s' @ [Synthesize tx]\<rparr>)"
        by (simp_all add: eq eq' cb_defs)
      then show ?thesis by blast
    next
      case (Some e)
      note se = this
      let ?s2 = "ui_log (TtsReintento n e) (call (Synthesize tx) s)"
      let ?s3 = "call (Sleep (tts_backoff ?s2 * real_of_int n)) ?s2"
      let ?s2' = "ui_log (TtsReintento n e) (call (Synthesize tx) s')"
      let ?s3' = "call (Sleep (tts_backoff ?s2' * real_of_int n)) ?s2'"
      have b: "tts_backoff ?s2 = tts_backoff s" "tts_backoff ?s2' = tts_backoff s"
        "tts_backoff ?s3' = tts_backoff ?s3"
        using "1.prems" by (simp_all add: cb_defs)
      show ?thesis
      proof (cases "time_sleep (tts_backoff s * real_of_int n)")
        case (Some x)
        with nm se b have "tts_attempts sy tx m n s =
              (Some x, s\<lparr>trace := trace s @ [Synthesize tx, UiLog (TtsReintento n e)]\<rparr>)"
          and "tts_attempts sy tx m n s' =
              (Some x, s'\<lparr>trace := trace s' @ [Synthesize tx, UiLog (TtsReintento n e)]\<rparr>)"
          by (simp_all add: eq eq' Let_def cb_defs)
        then show ?thesis by blast
      next
        case None
        then have ok: "time_sleep (tts_backoff ?s2 * real_of_int n) = None"
          and ok': "time_sleep (tts_backoff ?s2' * real_of_int n) = None"
          using b by simp_all
        from "1.IH"[OF _ refl se refl ok b(3)] nm
        obtain r X where
          ih: "tts_attempts sy tx m (n + 1) ?s3 = (r, ?s3\<lparr>trace := trace ?s3 @ X\<rparr>)"
          and ih': "tts_attempts sy tx m (n + 1) ?s3' = (r, ?s3'\<lparr>trace := trace ?s3' @ X\<rparr>)"
          by auto
        let ?L = "[Synthesize tx, UiLog (TtsReintento n e),
                   Sleep (tts_backoff s * real_of_int n)] @ X"
        have st: "tts_attempts sy tx m n s = tts_attempts sy tx m (n + 1) ?s3"
          using nm se ok by (simp add: eq Let_def)
        have st': "tts_attempts sy tx m n s' = tts_attempts sy tx m (n + 1) ?s3'"
          using nm se ok' by (simp add: eq' Let_def)
        have u: "?s3\<lparr>trace := trace ?s3 @ X\<rparr> = s\<lparr>trace := trace s @ ?L\<rparr>"
          by (simp add: cb_defs)
        have u': "?s3'\<lparr>trace := trace ?s3' @ X\<rparr> = s'\<lparr>trace := trace s' @ ?L\<rparr>"
          using "1.prems" by (simp add: cb_defs)
        have "tts_attempts sy tx m n s = (r, s\<lparr>trace := trace s @ ?L\<rparr>)"
          and "tts_attempts sy tx m n s' = (r, s'\<lparr>trace := trace s' @ ?L\<rparr>)"
          using st st' ih ih' u u' by simp_all
        then show ?thesis by blast
      qed
    qed
  qed
qed

lemma retries_rel:
  assumes "tts_backoff s' = tts_backoff s" and "tts_max_retries s' = tts_max_retries s"
  shows "\<exists>r X. tts_with_retries sy tx s = (r, s\<lparr>trace := trace s @ X\<rparr>)
          \<and> tts_with_retries sy tx s' = (r, s'\<lparr>trace := trace s' @ X\<rparr>)"
  unfolding tts_with_retries_def assms(2) using attempts_rel[OF assms(1)] by blast

lemma retries_quiet:
  "count_events is_tts_error (trace (snd (tts_with_retries sy tx s)))
     = count_events is_tts_error (trace s)"
  "count_events ((=) Play) (trace (snd (tts_with_retries sy tx s)))
     = count_events ((=) Play) (trace s)"
  unfolding tts_with_retries_def using attempts_quiet by blast+

lemma retries_frame:
  "\<exists>T. snd (tts_with_retries sy tx s) = s\<lparr>trace := T\<rparr>"
  unfolding tts_with_retries_def using attempts_frame by blast

lemma try_frame_eq:
  "snd (tts_try env tx s) = s\<lparr>trace := trace (snd (tts_try env tx s))\<rparr>"
proof (cases "ffmpeg_available s")
  case False
  then show ?thesis by (simp add: tts_try_def cb_defs)
next
  case True
  obtain r s1 where r: "tts_with_retries (synth env) tx s = (r, s1)"
    by (cases "tts_with_retries (synth env) tx s")
  with retries_frame[of "synth env" tx s] obtain T where T: "s1 = s\<lparr>trace := T\<rparr>" by auto
  show ?thesis
  proof (cases r)
    case (Some e)
    with True r T show ?thesis by (simp add: tts_try_def)
  next
    case None
    note rn = this
    show ?thesis
    proof (cases "decode env")
      case (Some e)
      with True r T rn show ?thesis by (simp add: tts_try_def Let_def cb_defs)
    next
      case None
      note dn = this
      show ?thesis
      proof (cases "save_wav s \<and> export env \<noteq> None")
        case True
        with \<open>ffmpeg_available s\<close> r T rn dn show ?thesis
          by (auto simp: tts_try_def Let_def cb_defs)
      next
        case False
        then have ex: "(if save_wav s then export env else None) = None" by auto
        show ?thesis
        proof (cases "play env")
          case (Some e)
          with True r T rn dn ex show ?thesis
            by (simp add: tts_try_def Let_def cb_defs)
        next
          case None
          with True r T rn dn ex show ?thesis
            by (simp add: tts_try_def Let_def cb_defs)
        qed
      qed
    qed
  qed
qed

lemma try_frame: "\<exists>T. snd (tts_try env tx s) = s\<lparr>trace := T\<rparr>"
  using try_frame_eq by blast

lemma stop_input_stop_event: "stop_event (stop_input s dev) = stop_event s"
  by (cases dev) (simp_all add: stop_input_def stream_stop_close_def cb_defs split: option.splits)

lemma handle_phrase_shape:
  "\<exists>T. handle_phrase env tx s =
         tts_finally env
           ((if ducking s then stop_input s (dev_close env) else s)
              \<lparr>trace := T, stop_event := stop_event s \<or> stop_during env\<rparr>)"
proof -
  let ?s0 = "if ducking s then stop_input s (dev_close env) else s"
  obtain r s1 where r: "tts_try env tx ?s0 = (r, s1)" by (cases "tts_try env tx ?s0")
  with try_frame[of env tx ?s0] obtain T where T: "s1 = ?s0\<lparr>trace := T\<rparr>" by auto
  have se: "stop_event ?s0 = stop_event s" by (simp add: stop_input_stop_event)
  show ?thesis
  proof (cases r)
    case (Raised e)
    have "handle_phrase env tx s =
         tts_finally env (?s0\<lparr>trace := T @ [UiLog (TtsError e)],
            stop_event := stop_event s \<or> stop_during env\<rparr>)"
      using r T Raised se by (simp add: handle_phrase_def Let_def cb_defs)
    then show ?thesis by blast
  next
    case Completed
    have "handle_phrase env tx s =
         tts_finally env (?s0\<lparr>trace := T, stop_event := stop_event s \<or> stop_during env\<rparr>)"
      using r T Completed se by (simp add: handle_phrase_def Let_def cb_defs)
    then show ?thesis by blast
  next
    case Continue
    have "handle_phrase env tx s =
         tts_finally env (?s0\<lparr>trace := T, stop_event := stop_event s \<or> stop_during env\<rparr>)"
      using r T Continue se by (simp add: handle_phrase_def Let_def cb_defs)
    then show ?thesis by blast
  qed
qed

lemma count_failed_synth:
  "\<forall>j \<in> set js. sy j \<noteq> None \<Longrightarrow>
     count_events is_synthesize (concat (map (failed_attempt b sy tx) js)) = length js"
  by (induction js) (auto simp: failed_attempt_def count_events_def)

lemma count_failed_other:
  "count_events is_tts_error (concat (map (failed_attempt b sy tx) js)) = 0"
  "count_events ((=) Play) (concat (map (failed_attempt b sy tx) js)) = 0"
  by (induction js) (auto simp: failed_attempt_def count_events_def split: option.splits)

lemma stop_input_trace:
  "trace (stop_input s dev) =
     trace s @ (if stream_in s = None then []
                else [UiLog CapturaDetenida, OnStatus MicrofonoDetenido])"
  by (cases dev) (simp_all add: stop_input_def stream_stop_close_def cb_defs split: option.splits)

lemma stop_input_config:
  "ffmpeg_available (stop_input s dev) = ffmpeg_available s"
  "tts_max_retries (stop_input s dev) = tts_max_retries s"
  "tts_backoff (stop_input s dev) = tts_backoff s"
  "ducking (stop_input s dev) = ducking s"
  "phrase_q (stop_input s dev) = phrase_q s"
  by (cases dev; simp add: stop_input_def stream_stop_close_def cb_defs split: option.splits)+

lemma finally_trace:
  "trace (tts_finally env s) =
     trace s @ (if ducking s \<and> \<not> stop_event s then resume_events (dev_open env) else [])"
  by (cases "dev_open env")
     (simp_all add: tts_finally_def start_input_def resume_events_def Let_def cb_defs)

lemma finally_phrase_q: "phrase_q (tts_finally env s) = phrase_q s"
  by (cases "dev_open env")
     (simp_all add: tts_finally_def start_input_def Let_def cb_defs)

lemma resume_events_counts:
  "count_events is_tts_error (resume_events d) = 0"
  "count_events is_synthesize (resume_events d) = 0"
  "count_events ((=) Play) (resume_events d) = 0"
  by (cases d; simp add: resume_events_def count_events_def)+

lemma stop_input_save_wav: "save_wav (stop_input s dev) = save_wav s"
  by (cases dev) (simp_all add: stop_input_def stream_stop_close_def cb_defs split: option.splits)

lemma try_synth_count:
  "count_events is_synthesize (trace (snd (tts_try env tx s))) =
     (if ffmpeg_available s
      then count_events is_synthesize (trace (snd (tts_with_retries (synth env) tx s)))
      else count_events is_synthesize (trace s))"
proof (cases "ffmpeg_available s")
  case False
  then show ?thesis by (simp add: tts_try_def cb_defs count_events_def)
next
  case True
  obtain r s1 where r: "tts_with_retries (synth env) tx s = (r, s1)"
    by (cases "tts_with_retries (synth env) tx s")
  with retries_frame[of "synth env" tx s] obtain T where T: "s1 = s\<lparr>trace := T\<rparr>" by auto
  show ?thesis
  proof (cases r)
    case (Some e)
    with True r T show ?thesis by (simp add: tts_try_def)
  next
    case None
    note rn = this
    show ?thesis
    proof (cases "decode env")
      case (Some e)
      with True r T rn show ?thesis by (simp add: tts_try_def Let_def cb_defs count_events_def)
    next
      case None
      note dn = this
      show ?thesis
      proof (cases "save_wav s \<and> export env \<noteq> None")
        case True
        with \<open>ffmpeg_available s\<close> r T rn dn show ?thesis
          by (auto simp: tts_try_def Let_def cb_defs count_events_def)
      next
        case False
        then have ex: "(if save_wav s then export env else None) = None" by auto
        show ?thesis
        proof (cases "play env")
          case (Some e)
          with True r T rn dn ex show ?thesis
            by (simp add: tts_try_def Let_def cb_defs count_events_def)
        next
          case None
          with True r T rn dn ex show ?thesis
            by (simp add: tts_try_def Let_def cb_defs count_events_def)
        qed
      qed
    qed
  qed
qed

lemma try_raised:
  assumes "ffmpeg_available s" and "tts_with_retries (synth env) tx s = (Some x, s1)"
  shows "tts_try env tx s = (Raised x, s1)"
  using assms by (simp add: tts_try_def)

lemma try_completed:
  assumes "ffmpeg_available s" and "tts_with_retries (synth env) tx s = (None, s\<lparr>trace := T\<rparr>)"
    and "decode env = None" and "save_wav s \<longrightarrow> export env = None" and "play env = None"
  shows "fst (tts_try env tx s) = Completed
     \<and> count_events is_tts_error (trace (snd (tts_try env tx s))) = count_events is_tts_error T
     \<and> count_events ((=) Play) (trace (snd (tts_try env tx s))) = count_events ((=) Play) T + 1"
proof -
  have ex: "(if save_wav s then export env else None) = None" using assms(4) by auto
  show ?thesis
    using assms(1,2,3,5) ex by (simp add: tts_try_def Let_def cb_defs count_events_def)
qed

text \<open>
  The handling of one phrase adds to the trace what the \<open>try\<close> block adds, the
  \<open>[TTS ERROR]\<close> line when the block raised, and the events of the \<open>finally\<close> block.
\<close>

lemma handle_phrase_trace:
  "\<exists>F. trace (handle_phrase env tx s) =
         trace (snd (tts_try env tx (if ducking s then stop_input s (dev_close env) else s)))
         @ (case fst (tts_try env tx (if ducking s then stop_input s (dev_close env) else s)) of
              Raised e \<Rightarrow> [UiLog (TtsError e)] | _ \<Rightarrow> [])
         @ F
       \<and> count_events is_synthesize F = 0
       \<and> count_events is_tts_error F = 0
       \<and> count_events ((=) Play) F = 0"
proof -
  let ?s0 = "if ducking s then stop_input s (dev_close env) else s"
  obtain r s1 where r: "tts_try env tx ?s0 = (r, s1)" by (cases "tts_try env tx ?s0")
  define s2 where "s2 = (case r of Raised e \<Rightarrow> ui_log (TtsError e) s1 | _ \<Rightarrow> s1)"
  define s3 where "s3 = s2\<lparr>stop_event := stop_event s2 \<or> stop_during env\<rparr>"
  define F where "F = (if ducking s3 \<and> \<not> stop_event s3
                       then resume_events (dev_open env) else [])"
  have hp: "handle_phrase env tx s = tts_finally env s3"
    using r by (simp add: handle_phrase_def Let_def s2_def s3_def)
  have t2: "trace s2 = trace s1 @ (case r of Raised e \<Rightarrow> [UiLog (TtsError e)] | _ \<Rightarrow> [])"
    by (cases r) (simp_all add: s2_def cb_defs)
  have "trace (handle_phrase env tx s) = trace s2 @ F"
    by (simp add: hp finally_trace F_def s3_def)
  then have "trace (handle_phrase env tx s) =
       trace (snd (tts_try env tx ?s0))
       @ (case fst (tts_try env tx ?s0) of Raised e \<Rightarrow> [UiLog (TtsError e)] | _ \<Rightarrow> [])
       @ F"
    using t2 r by simp
  moreover have "count_events is_synthesize F = 0" "count_events is_tts_error F = 0"
    "count_events ((=) Play) F = 0"
    by (simp_all add: F_def resume_events_counts)
  ultimately show ?thesis by blast
qed

lemma handle_phrase_phrase_q: "phrase_q (handle_phrase env tx s) = phrase_q s"
proof -
  obtain T where "handle_phrase env tx s =
         tts_finally env
           ((if ducking s then stop_input s (dev_close env) else s)
              \<lparr>trace := T, stop_event := stop_event s \<or> stop_during env\<rparr>)"
    using handle_phrase_shape by blast
  then show ?thesis by (simp add: finally_phrase_q stop_input_config)
qed

subsection \<open>C1: capture after the handling of a phrase\<close>

text \<open>
  Claim C1 says that, with ducking enabled, capture is resumed after every playback
  attempt unless the stop signal is raised. The \<open>finally\<close> block calls \<open>start_input\<close>
  inside a \<open>try\<close> of its own: when the device layer cannot open the stream, the
  exception is logged and capture stays suspended although no stop signal was raised.
  Here the phrase is synthesized and played, and the engine ends without a stream.
\<close>

theorem capture_not_resumed_counterexample:
  "ducking capturing
   \<and> \<not> stop_event (handle_phrase device_lost ''hola mundo'' capturing)
   \<and> stream_in (handle_phrase device_lost ''hola mundo'' capturing) = None
   \<and> running (handle_phrase device_lost ''hola mundo'' capturing) = {}
   \<and> trace (handle_phrase device_lost ''hola mundo'' capturing) =
       [UiLog CapturaDetenida, OnStatus MicrofonoDetenido, Synthesize ''hola mundo'',
        DecodeMp3, ExportWav, OnStatus Reproduciendo, Play, OnStatus ListoEscuchando,
        RemoveMp3, UiLog (NoSePudoReanudar (LibraryError ''PortAudioError''))]"
  by (simp add: capturing_def device_lost_def init_def handle_phrase_def stop_input_def
      stream_stop_close_def tts_try_def tts_with_retries_def tts_attempts.simps
      always_succeeds_def tts_finally_def start_input_def Let_def cb_defs)

text \<open>
  Claim C1 as amended. With ducking enabled, for every phrase and whatever the
  synthesizer, the decoding, the export and the playback do (success, retries exhausted,
  an exception at any point, FFmpeg missing), the handling of the phrase ends in one of
  two ways. If the stop signal is raised when the \<open>finally\<close> block runs, capture is not
  resumed: no stream is held, none is opened. Otherwise \<open>start_input\<close> is called once:
  when the device layer opens and starts the stream, capture is active again on a fresh
  stream; when it raises, the failure is logged as the last message and no stream runs
  that did not run before.
\<close>

theorem capture_resumed_unless_stopping:
  assumes "ducking s"
  shows "(stop_event s \<or> stop_during env \<longrightarrow>
            stop_event (handle_phrase env tx s)
            \<and> stream_in (handle_phrase env tx s) = None
            \<and> next_stream (handle_phrase env tx s) = next_stream s
            \<and> opened (handle_phrase env tx s) \<subseteq> opened s
            \<and> running (handle_phrase env tx s) \<subseteq> running s)
       \<and> (\<not> stop_event s \<and> \<not> stop_during env \<longrightarrow>
            (dev_open env = StreamStarted \<longrightarrow>
               stream_in (handle_phrase env tx s) = Some (next_stream s)
               \<and> next_stream s \<in> running (handle_phrase env tx s)
               \<and> next_stream (handle_phrase env tx s) = Suc (next_stream s))
            \<and> (\<forall>e. dev_open env = OpenRaises e \<longrightarrow>
                 stream_in (handle_phrase env tx s) = None
                 \<and> next_stream (handle_phrase env tx s) = next_stream s
                 \<and> running (handle_phrase env tx s) \<subseteq> running s
                 \<and> last (trace (handle_phrase env tx s)) = UiLog (NoSePudoReanudar e))
            \<and> (\<forall>e. dev_open env = StartRaises e \<longrightarrow>
                 stream_in (handle_phrase env tx s) = Some (next_stream s)
                 \<and> next_stream (handle_phrase env tx s) = Suc (next_stream s)
                 \<and> running (handle_phrase env tx s) \<subseteq> running s
                 \<and> last (trace (handle_phrase env tx s)) = UiLog (NoSePudoReanudar e)))"
proof -
  obtain T where T: "handle_phrase env tx s =
         tts_finally env
           ((stop_input s (dev_close env))
              \<lparr>trace := T, stop_event := stop_event s \<or> stop_during env\<rparr>)"
    using handle_phrase_shape[of env tx s] assms by auto
  have d: "ducking (stop_input s (dev_close env))" using assms by (simp add: stop_input_config)
  have si: "stream_in (stop_input s (dev_close env)) = None" by (rule stop_input_stream)
  have ns: "next_stream (stop_input s (dev_close env)) = next_stream s"
    by (cases "dev_close env")
       (simp_all add: stop_input_def stream_stop_close_def cb_defs split: option.splits)
  have op: "opened (stop_input s (dev_close env)) \<subseteq> opened s"
    by (cases "dev_close env")
       (auto simp: stop_input_def stream_stop_close_def cb_defs split: option.splits)
  have ru: "running (stop_input s (dev_close env)) \<subseteq> running s"
    by (cases "dev_close env")
       (auto simp: stop_input_def stream_stop_close_def cb_defs split: option.splits)
  show ?thesis
    unfolding T using d si ns op ru
    by (cases "dev_open env")
       (auto simp: tts_finally_def start_input_def Let_def cb_defs)
qed

theorem capture_resumed_unless_stopping_witness:
  "ducking capturing \<and> \<not> stop_event capturing
   \<and> \<not> stop_during synthesis_down \<and> dev_open synthesis_down = StreamStarted
   \<and> stream_in (handle_phrase synthesis_down ''hola mundo'' capturing) = Some 1
   \<and> 1 \<in> running (handle_phrase synthesis_down ''hola mundo'' capturing)
   \<and> stop_during stopped_meanwhile
   \<and> stream_in (handle_phrase stopped_meanwhile ''hola mundo'' capturing) = None
   \<and> next_stream (handle_phrase stopped_meanwhile ''hola mundo'' capturing) = 1"
proof -
  have h: "ducking capturing" by (simp add: capturing_def init_def)
  from capture_resumed_unless_stopping [OF h, of synthesis_down "''hola mundo''"]
    capture_resumed_unless_stopping [OF h, of stopped_meanwhile "''hola mundo''"]
  show ?thesis
    by (simp add: capturing_def synthesis_down_def stopped_meanwhile_def init_def)
qed

subsection \<open>C3: the retry policy of the synthesis\<close>

text \<open>
  Claim C3 says that after the \<open>n\<close>-th failed attempt the code waits \<open>tts_backoff * n\<close>
  and retries. The wait is a call of \<open>time.sleep\<close> inside the handler of the failed
  attempt, and \<open>time.sleep\<close> raises on a delay it does not accept. With a backoff of
  \<open>1e10\<close> seconds and a synthesizer whose second attempt would succeed, the first
  failure is followed by no wait and no second attempt, although three attempts are allowed:
  \<open>OverflowError\<close> leaves \<open>_tts_with_retries\<close> after one call.
\<close>

theorem retry_abandoned_counterexample:
  "tts_max_retries huge_backoff = 3
   \<and> fails_once 2 = None
   \<and> tts_with_retries fails_once ''hola mundo'' huge_backoff =
       (Some OverflowError,
        huge_backoff\<lparr>trace :=
          [Synthesize ''hola mundo'',
           UiLog (TtsReintento 1 (LibraryError ''NoAudioReceived''))]\<rparr>)"
  by (simp add: tts_with_retries_def tts_attempts.simps[of _ _ _ 1] huge_backoff_def init_def
      fails_once_def time_sleep_def cb_defs Let_def)

text \<open>
  Claim C3 as amended. \<open>_tts_with_retries\<close> never makes more than \<open>tts_max_retries\<close>
  synthesis calls. As long as \<open>time.sleep\<close> accepts the delay \<open>tts_backoff * n\<close>: if every
  attempt fails, the trace grows by exactly one call, one retry notice and one sleep of
  \<open>tts_backoff * n\<close> for each attempt \<open>n\<close> from 1 to \<open>tts_max_retries\<close>, in this order,
  and \<open>RuntimeError\<close> is raised; if attempt \<open>k\<close> is the first to succeed, the same holds for
  the attempts before \<open>k\<close>, followed by the successful call and nothing else, so that
  exactly \<open>k\<close> calls were made. If \<open>time.sleep\<close> refuses the delay after the \<open>k\<close>-th
  failure, its exception leaves the method after exactly \<open>k\<close> calls, with no wait and no
  further attempt.

  In the worker, whatever the environment does, the phrase is taken off the queue, the
  thread stays in its loop with the rest of the queue, and at most \<open>tts_max_retries\<close>
  synthesis calls are made for it. With \<open>ffmpeg\<close> present the worker makes exactly the
  synthesis calls of \<open>_tts_with_retries\<close>; when that method raises (all attempts failed, or
  \<open>time.sleep\<close> refused), the failure is reported by exactly one \<open>[TTS ERROR]\<close> log line and
  nothing is played; when it returns and decoding, export and playback succeed, the clip
  is played exactly once and no error is reported.
\<close>

theorem tts_retry_policy:
  "count_events is_synthesize (trace (snd (tts_with_retries sy tx s)))
      \<le> count_events is_synthesize (trace s) + nat (tts_max_retries s)
   \<and> ((\<forall>j. 1 \<le> j \<and> j \<le> tts_max_retries s \<longrightarrow>
           sy j \<noteq> None \<and> time_sleep (tts_backoff s * real_of_int j) = None) \<longrightarrow>
        tts_with_retries sy tx s =
          (Some (RuntimeError TtsAgotoReintentos),
           s\<lparr>trace := trace s @ concat (map (failed_attempt (tts_backoff s) sy tx)
                                           [1..tts_max_retries s])\<rparr>)
        \<and> count_events is_synthesize (trace (snd (tts_with_retries sy tx s)))
            = count_events is_synthesize (trace s) + nat (tts_max_retries s))
   \<and> (1 \<le> k \<and> k \<le> tts_max_retries s \<and> sy k = None
        \<and> (\<forall>j. 1 \<le> j \<and> j < k \<longrightarrow>
              sy j \<noteq> None \<and> time_sleep (tts_backoff s * real_of_int j) = None) \<longrightarrow>
        tts_with_retries sy tx s =
          (None,
           s\<lparr>trace := trace s @ concat (map (failed_attempt (tts_backoff s) sy tx) [1..k - 1])
                         @ [Synthesize tx]\<rparr>)
        \<and> count_events is_synthesize (trace (snd (tts_with_retries sy tx s)))
            = count_events is_synthesize (trace s) + nat k)
   \<and> (1 \<le> k \<and> k \<le> tts_max_retries s \<and> sy k = Some e
        \<and> time_sleep (tts_backoff s * real_of_int k) = Some x
        \<and> (\<forall>j. 1 \<le> j \<and> j < k \<longrightarrow>
              sy j \<noteq> None \<and> time_sleep (tts_backoff s * real_of_int j) = None) \<longrightarrow>
        tts_with_retries sy tx s =
          (Some x,
           s\<lparr>trace := trace s @ concat (map (failed_attempt (tts_backoff s) sy tx) [1..k - 1])
                         @ [Synthesize tx, UiLog (TtsReintento k e)]\<rparr>)
        \<and> count_events is_synthesize (trace (snd (tts_with_retries sy tx s)))
            = count_events is_synthesize (trace s) + nat k)
   \<and> (\<not> stop_event s \<and> phrase_q s = tx # q \<longrightarrow>
        fst (tts_worker env Looping s) = Looping
        \<and> phrase_q (snd (tts_worker env Looping s)) = q
        \<and> count_events is_synthesize (trace (snd (tts_worker env Looping s)))
            \<le> count_events is_synthesize (trace s) + nat (tts_max_retries s))
   \<and> (ffmpeg_available s \<and> \<not> stop_event s \<and> phrase_q s = tx # q \<and> tx \<noteq> [] \<longrightarrow>
        count_events is_synthesize (trace (snd (tts_worker env Looping s)))
          = count_events is_synthesize (trace (snd (tts_with_retries (synth env) tx s)))
        \<and> (fst (tts_with_retries (synth env) tx s) \<noteq> None \<longrightarrow>
             count_events is_tts_error (trace (snd (tts_worker env Looping s)))
               = count_events is_tts_error (trace s) + 1
             \<and> count_events ((=) Play) (trace (snd (tts_worker env Looping s)))
               = count_events ((=) Play) (trace s))
        \<and> (fst (tts_with_retries (synth env) tx s) = None \<and> decode env = None
             \<and> (save_wav s \<longrightarrow> export env = None) \<and> play env = None \<longrightarrow>
             count_events is_tts_error (trace (snd (tts_worker env Looping s)))
               = count_events is_tts_error (trace s)
             \<and> count_events ((=) Play) (trace (snd (tts_worker env Looping s)))
               = count_events ((=) Play) (trace s) + 1))"
proof -
  let ?m = "tts_max_retries s"
  let ?c = "count_events is_synthesize"
  have a: "?c (trace (snd (tts_with_retries f tx s))) \<le> ?c (trace s) + nat ?m" for f
    using attempts_bound[of f tx "tts_max_retries s" 1 s] by (simp add: tts_with_retries_def)
  have b1: "tts_with_retries sy tx s =
          (Some (RuntimeError TtsAgotoReintentos),
           s\<lparr>trace := trace s @ concat (map (failed_attempt (tts_backoff s) sy tx) [1..?m])\<rparr>)"
    if "\<forall>j. 1 \<le> j \<and> j \<le> ?m \<longrightarrow>
           sy j \<noteq> None \<and> time_sleep (tts_backoff s * real_of_int j) = None"
    unfolding tts_with_retries_def by (rule attempts_all_fail) (use that in simp)
  have b2: "?c (trace (snd (tts_with_retries sy tx s))) = ?c (trace s) + nat ?m"
    if h: "\<forall>j. 1 \<le> j \<and> j \<le> ?m \<longrightarrow>
           sy j \<noteq> None \<and> time_sleep (tts_backoff s * real_of_int j) = None"
  proof -
    have "\<forall>j \<in> set [1..?m]. sy j \<noteq> None" using h by auto
    from count_failed_synth[OF this, of "tts_backoff s" tx]
    have "?c (concat (map (failed_attempt (tts_backoff s) sy tx) [1..?m])) = nat ?m" by simp
    then show ?thesis using b1[OF h] by simp
  qed
  have pre: "?c (concat (map (failed_attempt (tts_backoff s) sy tx) [1..k - 1])) = nat (k - 1)"
    if "\<forall>j. 1 \<le> j \<and> j < k \<longrightarrow>
           sy j \<noteq> None \<and> time_sleep (tts_backoff s * real_of_int j) = None"
  proof -
    have "\<forall>j \<in> set [1..k - 1]. sy j \<noteq> None" using that by auto
    from count_failed_synth[OF this, of "tts_backoff s" tx] show ?thesis by simp
  qed
  have c1: "tts_with_retries sy tx s =
          (None,
           s\<lparr>trace := trace s @ concat (map (failed_attempt (tts_backoff s) sy tx) [1..k - 1])
                         @ [Synthesize tx]\<rparr>)"
    if "1 \<le> k" "k \<le> ?m" "sy k = None"
      "\<forall>j. 1 \<le> j \<and> j < k \<longrightarrow>
           sy j \<noteq> None \<and> time_sleep (tts_backoff s * real_of_int j) = None"
    unfolding tts_with_retries_def by (rule attempts_success) (use that in simp_all)
  have c2: "?c (trace (snd (tts_with_retries sy tx s))) = ?c (trace s) + nat k"
    if "1 \<le> k" "k \<le> ?m" "sy k = None"
      "\<forall>j. 1 \<le> j \<and> j < k \<longrightarrow>
           sy j \<noteq> None \<and> time_sleep (tts_backoff s * real_of_int j) = None"
  proof -
    have "?c [Synthesize tx] = 1" by (simp add: count_events_def)
    then show ?thesis using c1[OF that] pre[OF that(4)] that(1) by (simp add: nat_diff_distrib)
  qed
  have d1: "tts_with_retries sy tx s =
          (Some x,
           s\<lparr>trace := trace s @ concat (map (failed_attempt (tts_backoff s) sy tx) [1..k - 1])
                         @ [Synthesize tx, UiLog (TtsReintento k e)]\<rparr>)"
    if "1 \<le> k" "k \<le> ?m" "sy k = Some e"
      "time_sleep (tts_backoff s * real_of_int k) = Some x"
      "\<forall>j. 1 \<le> j \<and> j < k \<longrightarrow>
           sy j \<noteq> None \<and> time_sleep (tts_backoff s * real_of_int j) = None"
    unfolding tts_with_retries_def by (rule attempts_sleep_refuses) (use that in simp_all)
  have d2: "?c (trace (snd (tts_with_retries sy tx s))) = ?c (trace s) + nat k"
    if "1 \<le> k" "k \<le> ?m" "sy k = Some e"
      "time_sleep (tts_backoff s * real_of_int k) = Some x"
      "\<forall>j. 1 \<le> j \<and> j < k \<longrightarrow>
           sy j \<noteq> None \<and> time_sleep (tts_backoff s * real_of_int j) = None"
  proof -
    have "?c [Synthesize tx, UiLog (TtsReintento k e)] = 1" by (simp add: count_events_def)
    then show ?thesis using d1[OF that] pre[OF that(5)] that(1) by (simp add: nat_diff_distrib)
  qed
  let ?s1 = "s\<lparr>phrase_q := q\<rparr>"
  define s0 where "s0 = (if ducking ?s1 then stop_input ?s1 (dev_close env) else ?s1)"
  define D where "D = (if ducking s \<and> stream_in s \<noteq> None
                then [UiLog CapturaDetenida, OnStatus MicrofonoDetenido] else [])"
  have t0: "trace s0 = trace s @ D" by (simp add: s0_def stop_input_trace D_def)
  have cD: "count_events is_tts_error D = 0" "?c D = 0" "count_events ((=) Play) D = 0"
    by (simp_all add: D_def count_events_def)
  have cfg: "tts_backoff s0 = tts_backoff s" "tts_max_retries s0 = ?m"
    "ffmpeg_available s0 = ffmpeg_available s" "save_wav s0 = save_wav s"
    by (simp_all add: s0_def stop_input_config stop_input_save_wav)
  obtain r X where rs: "tts_with_retries (synth env) tx s = (r, s\<lparr>trace := trace s @ X\<rparr>)"
    and r0: "tts_with_retries (synth env) tx s0 = (r, s0\<lparr>trace := trace s0 @ X\<rparr>)"
    using retries_rel[OF cfg(1,2), of "synth env" tx] by blast
  have cX: "count_events is_tts_error X = 0" "count_events ((=) Play) X = 0"
    using retries_quiet[of "synth env" tx s] rs by simp_all
  obtain F where hp: "trace (handle_phrase env tx ?s1) =
         trace (snd (tts_try env tx s0))
         @ (case fst (tts_try env tx s0) of Raised e \<Rightarrow> [UiLog (TtsError e)] | _ \<Rightarrow> [])
         @ F"
    and cF: "?c F = 0" "count_events is_tts_error F = 0" "count_events ((=) Play) F = 0"
    using handle_phrase_trace[of env tx ?s1] unfolding s0_def by blast
  have cE: "?c (case fst (tts_try env tx s0) of Raised e \<Rightarrow> [UiLog (TtsError e)] | _ \<Rightarrow> []) = 0"
    by (cases "fst (tts_try env tx s0)") (simp_all add: count_events_def)
  have hs: "?c (trace (handle_phrase env tx ?s1)) = ?c (trace (snd (tts_try env tx s0)))"
    by (simp only: hp count_events_append cE cF)
  have e1: "fst (tts_worker env Looping s) = Looping
        \<and> phrase_q (snd (tts_worker env Looping s)) = q
        \<and> ?c (trace (snd (tts_worker env Looping s))) \<le> ?c (trace s) + nat ?m"
    if "\<not> stop_event s" "phrase_q s = tx # q"
  proof (cases "tx = []")
    case True
    with that show ?thesis by (simp add: tts_worker_def tts_body_def)
  next
    case False
    with that have w: "tts_worker env Looping s = (Looping, handle_phrase env tx ?s1)"
      by (simp add: tts_worker_def tts_body_def)
    have "?c (trace (snd (tts_try env tx s0))) \<le> ?c (trace s) + nat ?m"
    proof (cases "ffmpeg_available s")
      case True
      have "?c (trace (snd (tts_try env tx s0)))
              = ?c (trace (snd (tts_with_retries (synth env) tx s0)))"
        using True cfg(3) by (simp only: try_synth_count) simp
      also have "\<dots> = ?c (trace s) + ?c X" using r0 t0 cD by simp
      also have "\<dots> = ?c (trace (snd (tts_with_retries (synth env) tx s)))" using rs by simp
      also have "\<dots> \<le> ?c (trace s) + nat ?m" by (rule a)
      finally show ?thesis .
    next
      case False
      have "?c (trace (snd (tts_try env tx s0))) = ?c (trace s0)"
        using False cfg(3) by (simp only: try_synth_count) simp
      then show ?thesis using t0 cD by simp
    qed
    then show ?thesis unfolding w using hs by (simp add: handle_phrase_phrase_q)
  qed
  have e2: "?c (trace (snd (tts_worker env Looping s)))
          = ?c (trace (snd (tts_with_retries (synth env) tx s)))
        \<and> (fst (tts_with_retries (synth env) tx s) \<noteq> None \<longrightarrow>
             count_events is_tts_error (trace (snd (tts_worker env Looping s)))
               = count_events is_tts_error (trace s) + 1
             \<and> count_events ((=) Play) (trace (snd (tts_worker env Looping s)))
               = count_events ((=) Play) (trace s))
        \<and> (fst (tts_with_retries (synth env) tx s) = None \<and> decode env = None
             \<and> (save_wav s \<longrightarrow> export env = None) \<and> play env = None \<longrightarrow>
             count_events is_tts_error (trace (snd (tts_worker env Looping s)))
               = count_events is_tts_error (trace s)
             \<and> count_events ((=) Play) (trace (snd (tts_worker env Looping s)))
               = count_events ((=) Play) (trace s) + 1)"
    if h: "ffmpeg_available s" "\<not> stop_event s" "phrase_q s = tx # q" "tx \<noteq> []"
  proof -
    have w: "tts_worker env Looping s = (Looping, handle_phrase env tx ?s1)"
      using h by (simp add: tts_worker_def tts_body_def)
    have f0: "ffmpeg_available s0" using h(1) cfg(3) by simp
    have "?c (trace (snd (tts_try env tx s0)))
            = ?c (trace (snd (tts_with_retries (synth env) tx s0)))"
      using f0 by (simp only: try_synth_count) simp
    also have "\<dots> = ?c (trace s) + ?c X" using r0 t0 cD by simp
    also have "\<dots> = ?c (trace (snd (tts_with_retries (synth env) tx s)))" using rs by simp
    finally have p1: "?c (trace (snd (tts_worker env Looping s)))
          = ?c (trace (snd (tts_with_retries (synth env) tx s)))"
      unfolding w using hs by simp
    have p2: "count_events is_tts_error (trace (snd (tts_worker env Looping s)))
               = count_events is_tts_error (trace s) + 1
             \<and> count_events ((=) Play) (trace (snd (tts_worker env Looping s)))
               = count_events ((=) Play) (trace s)"
      if "fst (tts_with_retries (synth env) tx s) \<noteq> None"
    proof -
      from that rs obtain x where x: "r = Some x" by auto
      have tr: "tts_try env tx s0 = (Raised x, s0\<lparr>trace := trace s0 @ X\<rparr>)"
        using try_raised[OF f0] r0 x by simp
      have "trace (handle_phrase env tx ?s1) = trace s @ D @ X @ [UiLog (TtsError x)] @ F"
        by (simp only: hp tr) (simp add: t0)
      then have tq: "trace (snd (tts_worker env Looping s))
                       = trace s @ D @ X @ [UiLog (TtsError x)] @ F"
        by (simp only: w snd_conv)
      have sing: "count_events is_tts_error [UiLog (TtsError x)] = 1"
        "count_events ((=) Play) [UiLog (TtsError x)] = 0"
        by (simp_all add: count_events_def)
      show ?thesis
        by (simp only: tq count_events_append cD cX cF sing) simp
    qed
    have p3: "count_events is_tts_error (trace (snd (tts_worker env Looping s)))
               = count_events is_tts_error (trace s)
             \<and> count_events ((=) Play) (trace (snd (tts_worker env Looping s)))
               = count_events ((=) Play) (trace s) + 1"
      if "fst (tts_with_retries (synth env) tx s) = None" "decode env = None"
        "save_wav s \<longrightarrow> export env = None" "play env = None"
    proof -
      from that(1) rs have rn: "r = None" by simp
      have r0': "tts_with_retries (synth env) tx s0 = (None, s0\<lparr>trace := trace s @ D @ X\<rparr>)"
        using r0 rn t0 by simp
      have sw: "save_wav s0 \<longrightarrow> export env = None" using that(3) cfg(4) by simp
      from try_completed[OF f0 r0' that(2) sw that(4)]
      have tc: "fst (tts_try env tx s0) = Completed"
        and te: "count_events is_tts_error (trace (snd (tts_try env tx s0)))
                   = count_events is_tts_error (trace s @ D @ X)"
        and tp: "count_events ((=) Play) (trace (snd (tts_try env tx s0)))
                   = count_events ((=) Play) (trace s @ D @ X) + 1"
        by blast+
      have "trace (handle_phrase env tx ?s1) = trace (snd (tts_try env tx s0)) @ F"
        by (simp only: hp tc) simp
      then show ?thesis unfolding w using te tp
        by (simp add: cD cX cF)
    qed
    from p1 p2 p3 show ?thesis by blast
  qed
  have A: "count_events is_synthesize (trace (snd (tts_with_retries sy tx s)))
      \<le> count_events is_synthesize (trace s) + nat (tts_max_retries s)"
    by (rule a)
  have B: "((\<forall>j. 1 \<le> j \<and> j \<le> tts_max_retries s \<longrightarrow>
           sy j \<noteq> None \<and> time_sleep (tts_backoff s * real_of_int j) = None) \<longrightarrow>
        tts_with_retries sy tx s =
          (Some (RuntimeError TtsAgotoReintentos),
           s\<lparr>trace := trace s @ concat (map (failed_attempt (tts_backoff s) sy tx)
                                           [1..tts_max_retries s])\<rparr>)
        \<and> count_events is_synthesize (trace (snd (tts_with_retries sy tx s)))
            = count_events is_synthesize (trace s) + nat (tts_max_retries s))"
    using b1 b2 by blast
  have C: "(1 \<le> k \<and> k \<le> tts_max_retries s \<and> sy k = None
        \<and> (\<forall>j. 1 \<le> j \<and> j < k \<longrightarrow>
              sy j \<noteq> None \<and> time_sleep (tts_backoff s * real_of_int j) = None) \<longrightarrow>
        tts_with_retries sy tx s =
          (None,
           s\<lparr>trace := trace s @ concat (map (failed_attempt (tts_backoff s) sy tx) [1..k - 1])
                         @ [Synthesize tx]\<rparr>)
        \<and> count_events is_synthesize (trace (snd (tts_with_retries sy tx s)))
            = count_events is_synthesize (trace s) + nat k)"
    using c1 c2 by blast
  have Dd: "(1 \<le> k \<and> k \<le> tts_max_retries s \<and> sy k = Some e
        \<and> time_sleep (tts_backoff s * real_of_int k) = Some x
        \<and> (\<forall>j. 1 \<le> j \<and> j < k \<longrightarrow>
              sy j \<noteq> None \<and> time_sleep (tts_backoff s * real_of_int j) = None) \<longrightarrow>
        tts_with_retries sy tx s =
          (Some x,
           s\<lparr>trace := trace s @ concat (map (failed_attempt (tts_backoff s) sy tx) [1..k - 1])
                         @ [Synthesize tx, UiLog (TtsReintento k e)]\<rparr>)
        \<and> count_events is_synthesize (trace (snd (tts_with_retries sy tx s)))
            = count_events is_synthesize (trace s) + nat k)"
    using d1 d2 by blast
  have E1: "(\<not> stop_event s \<and> phrase_q s = tx # q \<longrightarrow>
        fst (tts_worker env Looping s) = Looping
        \<and> phrase_q (snd (tts_worker env Looping s)) = q
        \<and> count_events is_synthesize (trace (snd (tts_worker env Looping s)))
            \<le> count_events is_synthesize (trace s) + nat (tts_max_retries s))"
    using e1 by blast
  have E2: "(ffmpeg_available s \<and> \<not> stop_event s \<and> phrase_q s = tx # q \<and> tx \<noteq> [] \<longrightarrow>
        count_events is_synthesize (trace (snd (tts_worker env Looping s)))
          = count_events is_synthesize (trace (snd (tts_with_retries (synth env) tx s)))
        \<and> (fst (tts_with_retries (synth env) tx s) \<noteq> None \<longrightarrow>
             count_events is_tts_error (trace (snd (tts_worker env Looping s)))
               = count_events is_tts_error (trace s) + 1
             \<and> count_events ((=) Play) (trace (snd (tts_worker env Looping s)))
               = count_events ((=) Play) (trace s))
        \<and> (fst (tts_with_retries (synth env) tx s) = None \<and> decode env = None
             \<and> (save_wav s \<longrightarrow> export env = None) \<and> play env = None \<longrightarrow>
             count_events is_tts_error (trace (snd (tts_worker env Looping s)))
               = count_events is_tts_error (trace s)
             \<and> count_events ((=) Play) (trace (snd (tts_worker env Looping s)))
               = count_events ((=) Play) (trace s) + 1))"
    using e2 by blast
  show ?thesis
    by (rule conjI[OF A conjI[OF B conjI[OF C conjI[OF Dd conjI[OF E1 E2]]]]])
qed

theorem tts_retry_policy_witness:
  "tts_with_retries always_fails ''hola mundo'' (init 0 True) =
       (Some (RuntimeError TtsAgotoReintentos),
        (init 0 True)\<lparr>trace :=
          [Synthesize ''hola mundo'', UiLog (TtsReintento 1 (LibraryError ''NoAudioReceived'')),
           Sleep 1,
           Synthesize ''hola mundo'', UiLog (TtsReintento 2 (LibraryError ''NoAudioReceived'')),
           Sleep 2,
           Synthesize ''hola mundo'', UiLog (TtsReintento 3 (LibraryError ''NoAudioReceived'')),
           Sleep 3]\<rparr>)
   \<and> fails_once 2 = None
   \<and> tts_with_retries fails_once ''hola mundo'' (init 0 True) =
       (None,
        (init 0 True)\<lparr>trace :=
          [Synthesize ''hola mundo'', UiLog (TtsReintento 1 (LibraryError ''NoAudioReceived'')),
           Sleep 1, Synthesize ''hola mundo'']\<rparr>)
   \<and> time_sleep (tts_backoff ((init 0 True)\<lparr>tts_backoff := - 1\<rparr>) * real_of_int 1)
       = Some ValueError
   \<and> tts_with_retries always_fails ''hola mundo'' ((init 0 True)\<lparr>tts_backoff := - 1\<rparr>) =
       (Some ValueError,
        (init 0 True)\<lparr>tts_backoff := - 1, trace :=
          [Synthesize ''hola mundo'',
           UiLog (TtsReintento 1 (LibraryError ''NoAudioReceived''))]\<rparr>)
   \<and> phrase_q (snd (tts_worker synthesis_down Looping
                        ((init 0 True)\<lparr>phrase_q := [''hola mundo'', ''buenos dias'']\<rparr>)))
       = [''buenos dias'']
   \<and> count_events is_tts_error
         (trace (snd (tts_worker synthesis_down Looping
                        ((init 0 True)\<lparr>phrase_q := [''hola mundo'', ''buenos dias'']\<rparr>)))) = 1
   \<and> count_events is_synthesize
         (trace (snd (tts_worker synthesis_down Looping
                        ((init 0 True)\<lparr>phrase_q := [''hola mundo'', ''buenos dias'']\<rparr>)))) = 3"
  using tts_retry_policy [where sy = always_fails and tx = "''hola mundo''" and s = "init 0 True"
      and k = 1 and env = synthesis_down and q = "[]"
      and e = "LibraryError ''NoAudioReceived''" and x = ValueError]
    tts_retry_policy [where sy = fails_once and tx = "''hola mundo''" and s = "init 0 True"
      and k = 2 and env = synthesis_down and q = "[]"
      and e = "LibraryError ''NoAudioReceived''" and x = ValueError]
    tts_retry_policy [where sy = always_fails and tx = "''hola mundo''"
      and s = "(init 0 True)\<lparr>tts_backoff := - 1\<rparr>"
      and k = 1 and env = synthesis_down and q = "[]"
      and e = "LibraryError ''NoAudioReceived''" and x = ValueError]
    tts_retry_policy [where sy = always_fails and tx = "''hola mundo''"
      and s = "(init 0 True)\<lparr>phrase_q := [''hola mundo'', ''buenos dias'']\<rparr>"
      and k = 1 and env = synthesis_down and q = "[''buenos dias'']"
      and e = "LibraryError ''NoAudioReceived''" and x = ValueError]
  by (simp add: init_def always_fails_def fails_once_def synthesis_down_def
      failed_attempt_def upto_rec1 count_events_def time_sleep_def)

subsection \<open>C9: the flush at shutdown\<close>

text \<open>
  Claim C9. When the segmentation thread tests the stop signal and finds it raised, it
  leaves its loop: it asks the recognizer for the final result once, emits the stripped
  text as a phrase exactly when it is non-empty and has at least \<open>min_phrase_len\<close> code
  points, logs that it stops, and has returned; the frames still queued are not read.
  It leaves the loop in no other way, and once it has returned it does nothing more, so
  that this phrase is its last.
\<close>

theorem shutdown_flushes_pending_utterance:
  "(stop_event s \<longrightarrow>
      fst (asr_worker env Looping s) = Finished
      \<and> trace (snd (asr_worker env Looping s)) =
          trace s @ RecFinalResult #
            (if strip (get_or_empty (final_text env)) \<noteq> []
                \<and> min_phrase_len s \<le> int (length (strip (get_or_empty (final_text env))))
             then [OnFinal (strip (get_or_empty (final_text env)))] else [])
            @ [UiLog HiloAsrDetenido]
      \<and> phrase_q (snd (asr_worker env Looping s)) =
          phrase_q s @
            (if strip (get_or_empty (final_text env)) \<noteq> []
                \<and> min_phrase_len s \<le> int (length (strip (get_or_empty (final_text env))))
             then [strip (get_or_empty (final_text env))] else [])
      \<and> audio_q (snd (asr_worker env Looping s)) = audio_q s)
   \<and> (\<not> stop_event s \<longrightarrow> fst (asr_worker env Looping s) = Looping)
   \<and> asr_worker env Finished s = (Finished, s)"
  by (simp add: asr_worker_def asr_exit_def emit_phrase_def cb_defs Let_def)

theorem shutdown_flushes_pending_utterance_witness:
  "stop_event ((init 0 True)\<lparr>stop_event := True\<rparr>)
   \<and> asr_worker (final_at '' hola mundo'' 5) Looping ((init 0 True)\<lparr>stop_event := True\<rparr>) =
       (Finished,
        (init 0 True)\<lparr>stop_event := True, phrase_q := [''hola mundo''],
          trace := [RecFinalResult, OnFinal ''hola mundo'', UiLog HiloAsrDetenido]\<rparr>)"
  using shutdown_flushes_pending_utterance
    [of "(init 0 True)\<lparr>stop_event := True\<rparr>" "final_at '' hola mundo'' 5"]
  by (simp add: init_def final_at_def strip_def isspace_def get_or_empty_def
      asr_worker_def asr_exit_def emit_phrase_def cb_defs Let_def)

subsection \<open>The throttle of the partial results\<close>

lemma throttle_inv_upd [simp]:
  "throttle_inv t th (s\<lparr>trace := a\<rparr>) = throttle_inv t th s"
  "throttle_inv t th (s\<lparr>audio_q := b\<rparr>) = throttle_inv t th s"
  "throttle_inv t th (s\<lparr>phrase_q := c\<rparr>) = throttle_inv t th s"
  "throttle_inv t th (s\<lparr>stop_event := d\<rparr>) = throttle_inv t th s"
  "throttle_inv t th (s\<lparr>stream_in := e\<rparr>) = throttle_inv t th s"
  "throttle_inv t th (s\<lparr>t_asr := f\<rparr>) = throttle_inv t th s"
  "throttle_inv t th (s\<lparr>t_tts := f\<rparr>) = throttle_inv t th s"
  "throttle_inv t th (s\<lparr>last_partial := g\<rparr>) = throttle_inv t th s"
  "throttle_inv t th (s\<lparr>last_activity_time := h\<rparr>) = throttle_inv t th s"
  "throttle_inv t th (s\<lparr>speech_seen_this_segment := d\<rparr>) = throttle_inv t th s"
  "throttle_inv t th (s\<lparr>opened := i\<rparr>) = throttle_inv t th s"
  "throttle_inv t th (s\<lparr>running := i\<rparr>) = throttle_inv t th s"
  "throttle_inv t th (s\<lparr>next_stream := j\<rparr>) = throttle_inv t th s"
  "throttle_inv t th (s\<lparr>threads := k\<rparr>) = throttle_inv t th s"
  by (simp_all add: throttle_inv_def)

lemma throttle_inv_emit: "throttle_inv t th (emit_phrase s tx) = throttle_inv t th s"
  by (simp add: emit_phrase_def cb_defs Let_def)

lemma throttle_inv_silence:
  "throttle_inv t th (finalize_by_silence s tc fin tr) = throttle_inv t th s"
  by (simp add: finalize_by_silence_def reset_partials_def throttle_inv_emit cb_defs Let_def)

lemma throttle_inv_result: "throttle_inv t th (handle_result env s) = throttle_inv t th s"
  by (simp add: handle_result_def reset_partials_def throttle_inv_emit cb_defs Let_def)

lemma throttle_inv_partial:
  "throttle_inv t th s \<Longrightarrow> t \<le> now env \<Longrightarrow> throttle_inv t th (handle_partial env s)"
  by (simp add: handle_partial_def throttle_inv_silence cb_defs Let_def)
     (simp add: throttle_inv_def)

lemma throttle_inv_asr_body:
  "throttle_inv t th s \<Longrightarrow> t \<le> now env \<Longrightarrow> throttle_inv t th (asr_body env s)"
  by (simp add: asr_body_def throttle_inv_silence throttle_inv_result throttle_inv_partial
      cb_defs Let_def split: list.splits)

lemma throttle_inv_asr_worker:
  "throttle_inv t th s \<Longrightarrow> t \<le> now env \<Longrightarrow> throttle_inv t th (snd (asr_worker env pc s))"
  by (simp add: asr_worker_def asr_exit_def throttle_inv_asr_body throttle_inv_emit
      cb_defs Let_def split: tstate.splits)

lemma throttle_inv_stop_input:
  "throttle_inv t th (stop_input s dev) = throttle_inv t th s"
  by (cases dev)
     (simp_all add: stop_input_def stream_stop_close_def cb_defs Let_def split: option.splits)

lemma throttle_inv_start_input:
  "throttle_inv t th (snd (start_input s dev)) = throttle_inv t th s"
  by (cases dev) (simp_all add: start_input_def cb_defs Let_def)

lemma throttle_inv_finally: "throttle_inv t th (tts_finally env s) = throttle_inv t th s"
  by (cases "dev_open env") (simp_all add: tts_finally_def start_input_def cb_defs Let_def)

lemma throttle_inv_handle: "throttle_inv t th (handle_phrase env tx s) = throttle_inv t th s"
proof -
  obtain T where "handle_phrase env tx s =
         tts_finally env
           ((if ducking s then stop_input s (dev_close env) else s)
              \<lparr>trace := T, stop_event := stop_event s \<or> stop_during env\<rparr>)"
    using handle_phrase_shape by blast
  then show ?thesis by (simp add: throttle_inv_finally throttle_inv_stop_input)
qed

lemma throttle_inv_tts_worker:
  "throttle_inv t th (snd (tts_worker env pc s)) = throttle_inv t th s"
  by (simp add: tts_worker_def tts_body_def throttle_inv_handle cb_defs Let_def
      split: tstate.splits list.splits)

lemma throttle_inv_start: "throttle_inv t th (snd (start s dev)) = throttle_inv t th s"
  by (cases dev) (simp_all add: start_def start_input_def cb_defs Let_def)

lemma throttle_inv_stop: "throttle_inv t th (stop s dev) = throttle_inv t th s"
  by (simp add: stop_def Let_def throttle_inv_stop_input)

lemma throttle_inv_thread_step:
  assumes "\<And>pc s. throttle_inv t th s \<Longrightarrow> throttle_inv t th (snd (body pc s))"
    and "throttle_inv t th s"
  shows "throttle_inv t th (thread_step i w body s)"
proof (cases "i < length (threads s) \<and> fst (threads s ! i) = w")
  case False
  with assms(2) show ?thesis by (auto simp: thread_step_def)
next
  case True
  obtain pc s1 where b: "body (snd (threads s ! i)) s = (pc, s1)"
    by (cases "body (snd (threads s ! i)) s")
  have "throttle_inv t th s1" using assms(1)[OF assms(2), of "snd (threads s ! i)"] b by simp
  with True b show ?thesis by (simp add: thread_step_def)
qed

lemma throttle_inv_step:
  assumes "throttle_inv t th s" and "clock_from t a"
  shows "throttle_inv t th (step s a)"
proof (cases a)
  case (FramePut f)
  with assms show ?thesis by (simp add: audio_put_def)
next
  case (AsrStep i env)
  with assms show ?thesis by (simp add: throttle_inv_thread_step throttle_inv_asr_worker)
next
  case (TtsStep i env)
  with assms show ?thesis by (simp add: throttle_inv_thread_step throttle_inv_tts_worker)
next
  case (CallStart dev)
  with assms show ?thesis by (simp add: throttle_inv_start)
next
  case (CallStop dev)
  with assms show ?thesis by (simp add: throttle_inv_stop)
qed

lemma throttle_inv_run:
  "throttle_inv t th s \<Longrightarrow> \<forall>a \<in> set acts. clock_from t a \<Longrightarrow> throttle_inv t th (run s acts)"
  unfolding run_def by (induction acts arbitrary: s) (simp_all add: throttle_inv_step)


lemma handle_partial_surfaced:
  assumes "get_or_empty (partial_text env) \<noteq> []"
    and "print_partials s" and "get_or_empty (partial_text env) \<noteq> last_partial s"
    and "partial_throttle_sec s \<le> now env - last_partial_time s"
  shows "handle_partial env s =
           s\<lparr>speech_seen_this_segment := True, last_activity_time := now env,
             trace := trace s @ [RecPartialResult, OnPartial (get_or_empty (partial_text env))],
             last_partial := get_or_empty (partial_text env),
             last_partial_time := now env\<rparr>"
  using assms by (simp add: handle_partial_def cb_defs Let_def)

lemma handle_partial_throttled:
  assumes "get_or_empty (partial_text env) \<noteq> []"
    and "\<not> (print_partials s \<and> get_or_empty (partial_text env) \<noteq> last_partial s
            \<and> partial_throttle_sec s \<le> now env - last_partial_time s)"
  shows "handle_partial env s =
           s\<lparr>speech_seen_this_segment := True, last_activity_time := now env,
             trace := trace s @ [RecPartialResult]\<rparr>"
  using assms by (auto simp: handle_partial_def cb_defs Let_def)

subsection \<open>C5: which partial results are surfaced\<close>

text \<open>
  Claim C5 says that a partial is surfaced only if its text differs from the last
  surfaced partial. The engine compares with \<open>_last_partial\<close>, which \<open>_reset_partials\<close>
  empties at the end of every segment. Here the partial \<open>hola\<close> is surfaced at 10, the
  recognizer declares the (too short) text final at 11, which resets the segment without
  emitting a phrase, and at 12 the partial \<open>hola\<close>, the text surfaced last, is surfaced
  again.
\<close>

theorem partial_surfaced_again_counterexample:
  "last_surfaced (trace (asr_body (final_at ''hola'' 11)
                    (asr_body (partial_at ''hola'' 10) three_frames))) = Some ''hola''
   \<and> trace (asr_body (partial_at ''hola'' 12)
             (asr_body (final_at ''hola'' 11)
               (asr_body (partial_at ''hola'' 10) three_frames))) =
       trace (asr_body (final_at ''hola'' 11)
               (asr_body (partial_at ''hola'' 10) three_frames))
       @ [AcceptWaveform, RecPartialResult, OnPartial ''hola'']
   \<and> phrase_q (asr_body (final_at ''hola'' 11)
                 (asr_body (partial_at ''hola'' 10) three_frames)) = []"
  by (simp add: three_frames_def init_def partial_at_def final_at_def asr_body_def
      handle_partial_def handle_result_def reset_partials_def emit_phrase_def
      strip_def isspace_def get_or_empty_def cb_defs Let_def)

text \<open>
  Claim C5 as amended. Every non-empty partial result sets the activity time to the
  clock and marks the segment as having speech. It is surfaced exactly when partials
  are printed, its text differs from the stored last partial (the text surfaced last in
  the current segment, empty after a reset) and at least \<open>partial_throttle_sec\<close> has
  elapsed since the last surfaced partial; surfacing stores the text and the time, and
  otherwise both are kept. Hence of two non-empty partials, identical or different, that
  arrive less than \<open>partial_throttle_sec\<close> apart, with anything happening in between
  under a clock that does not run backwards, at most one is surfaced: if the first is,
  the second is not.
\<close>

theorem partial_throttling:
  "(get_or_empty (partial_text env) \<noteq> [] \<longrightarrow>
      last_activity_time (handle_partial env s) = now env
      \<and> speech_seen_this_segment (handle_partial env s))
   \<and> (get_or_empty (partial_text env) \<noteq> [] \<and> print_partials s
        \<and> get_or_empty (partial_text env) \<noteq> last_partial s
        \<and> partial_throttle_sec s \<le> now env - last_partial_time s \<longrightarrow>
        trace (handle_partial env s) =
          trace s @ [RecPartialResult, OnPartial (get_or_empty (partial_text env))]
        \<and> last_partial (handle_partial env s) = get_or_empty (partial_text env)
        \<and> last_partial_time (handle_partial env s) = now env)
   \<and> (get_or_empty (partial_text env) \<noteq> []
        \<and> \<not> (print_partials s \<and> get_or_empty (partial_text env) \<noteq> last_partial s
              \<and> partial_throttle_sec s \<le> now env - last_partial_time s) \<longrightarrow>
        trace (handle_partial env s) = trace s @ [RecPartialResult]
        \<and> last_partial (handle_partial env s) = last_partial s
        \<and> last_partial_time (handle_partial env s) = last_partial_time s)
   \<and> (get_or_empty (partial_text env) \<noteq> [] \<and> get_or_empty (partial_text env2) \<noteq> []
        \<and> now env2 - now env < partial_throttle_sec s
        \<and> (\<forall>a \<in> set mid. clock_from (now env) a)
        \<and> count_events is_on_partial (trace (handle_partial env s))
            = count_events is_on_partial (trace s) + 1 \<longrightarrow>
        count_events is_on_partial (trace (handle_partial env2 (run (handle_partial env s) mid)))
          = count_events is_on_partial (trace (run (handle_partial env s) mid)))"
proof -
  let ?p = "get_or_empty (partial_text env)"
  let ?c = "print_partials s \<and> ?p \<noteq> last_partial s
            \<and> partial_throttle_sec s \<le> now env - last_partial_time s"
  have a: "last_activity_time (handle_partial env s) = now env
      \<and> speech_seen_this_segment (handle_partial env s)" if "?p \<noteq> []"
    using that by (cases ?c) (simp_all add: handle_partial_surfaced handle_partial_throttled)
  have b: "trace (handle_partial env s) = trace s @ [RecPartialResult, OnPartial ?p]
        \<and> last_partial (handle_partial env s) = ?p
        \<and> last_partial_time (handle_partial env s) = now env" if "?p \<noteq> []" ?c
    using that by (simp add: handle_partial_surfaced)
  have c: "trace (handle_partial env s) = trace s @ [RecPartialResult]
        \<and> last_partial (handle_partial env s) = last_partial s
        \<and> last_partial_time (handle_partial env s) = last_partial_time s"
    if "?p \<noteq> []" "\<not> ?c"
    using that by (simp add: handle_partial_throttled)
  have d: "count_events is_on_partial (trace (handle_partial env2 (run (handle_partial env s) mid)))
          = count_events is_on_partial (trace (run (handle_partial env s) mid))"
    if p1: "?p \<noteq> []" and p2: "get_or_empty (partial_text env2) \<noteq> []"
      and near: "now env2 - now env < partial_throttle_sec s"
      and clk: "\<forall>a \<in> set mid. clock_from (now env) a"
      and first: "count_events is_on_partial (trace (handle_partial env s))
            = count_events is_on_partial (trace s) + 1"
  proof -
    have ?c
    proof (rule ccontr)
      assume "\<not> ?c"
      from c[OF p1 this] have "count_events is_on_partial (trace (handle_partial env s))
            = count_events is_on_partial (trace s)" by (simp add: count_events_def)
      with first show False by simp
    qed
    then have s1: "handle_partial env s =
           s\<lparr>speech_seen_this_segment := True, last_activity_time := now env,
             trace := trace s @ [RecPartialResult, OnPartial ?p],
             last_partial := ?p, last_partial_time := now env\<rparr>"
      using p1 by (simp add: handle_partial_surfaced)
    have "throttle_inv (now env) (partial_throttle_sec s) (handle_partial env s)"
      unfolding s1 by (simp add: throttle_inv_def)
    from throttle_inv_run[OF this clk]
    have i2: "now env \<le> last_partial_time (run (handle_partial env s) mid)"
      "partial_throttle_sec (run (handle_partial env s) mid) = partial_throttle_sec s"
      by (simp_all add: throttle_inv_def)
    let ?s2 = "run (handle_partial env s) mid"
    have "\<not> (print_partials ?s2 \<and> get_or_empty (partial_text env2) \<noteq> last_partial ?s2
            \<and> partial_throttle_sec ?s2 \<le> now env2 - last_partial_time ?s2)"
      using i2 near by simp
    from handle_partial_throttled[OF p2 this] show ?thesis
      by (simp add: count_events_def)
  qed
  show ?thesis using a b c d by blast
qed

theorem partial_throttling_witness:
  "get_or_empty (partial_text (partial_at ''hola'' 10)) = ''hola''
   \<and> partial_throttle_sec (init 0 True) \<le> now (partial_at ''hola'' 10) - last_partial_time (init 0 True)
   \<and> trace (handle_partial (partial_at ''hola'' 10) (init 0 True))
       = [RecPartialResult, OnPartial ''hola'']
   \<and> last_activity_time (handle_partial (partial_at ''hola'' 10) (init 0 True)) = 10
   \<and> now (partial_at ''hola mundo'' 10.1) - now (partial_at ''hola'' 10)
       < partial_throttle_sec (init 0 True)
   \<and> count_events is_on_partial
        (trace (handle_partial (partial_at ''hola mundo'' 10.1)
                 (run (handle_partial (partial_at ''hola'' 10) (init 0 True)) []))) = 1"
  using partial_throttling [where env = "partial_at ''hola'' 10" and s = "init 0 True"
      and ?env2.0 = "partial_at ''hola mundo'' 10.1" and mid = "[]"]
  by (simp add: init_def partial_at_def get_or_empty_def run_def count_events_def)

end
